theory Spec2Isabelle
  imports Complex_Main "HOL-Library.Sublist"
begin

section \<open>JavaScript values and numbers\<close>

text \<open>
  A JavaScript number is a double: a finite value, one of the two infinities, or NaN.
  \<open>Fin x\<close> is the finite double of value \<open>x\<close>; the sum, product and quotient of two finite
  doubles is the exact result rounded to the nearest double by \<open>round_double\<close>, which
  gives an infinity on overflow. The sign of zero is not modelled; the code never divides
  by a negative zero, since \<open>results.weight\<close> starts at \<open>+0\<close> and a sum with a \<open>+0\<close> summand
  is never \<open>-0\<close>, and \<open>x || 0\<close> turns \<open>-0\<close> into \<open>+0\<close>.
\<close>

datatype jsnum = Fin real | PosInf | NegInf | NaN

text \<open>\<open>2\<close> to an integer power.\<close>

definition pow2 :: "int \<Rightarrow> real" where
  "pow2 e = (if 0 \<le> e then 2 ^ nat e else 1 / 2 ^ nat (- e))"

text \<open>
  The binary exponent of a positive real: the \<open>k\<close> with \<open>2^k \<le> x < 2^(k+1)\<close>, found by halving
  and doubling.
\<close>

function ilog2 :: "real \<Rightarrow> int" where
  "ilog2 x =
     (if x \<le> 0 then 0
      else if 2 \<le> x then ilog2 (x / 2) + 1
      else if x < 1 then ilog2 (2 * x) - 1
      else 0)"
  by pat_completeness auto
termination
proof (relation "measure (\<lambda>x. nat \<bar>\<lfloor>log 2 x\<rfloor>\<bar>)")
  show "wf (measure (\<lambda>x. nat \<bar>\<lfloor>log 2 x\<rfloor>\<bar>))" by simp
next
  fix x :: real
  assume "\<not> x \<le> 0" "2 \<le> x"
  then have "log 2 (x / 2) = log 2 x - 1" "1 \<le> log 2 x"
    by (simp_all add: log_divide le_log_iff)
  then have "\<lfloor>log 2 (x / 2)\<rfloor> = \<lfloor>log 2 x\<rfloor> - 1" "1 \<le> \<lfloor>log 2 x\<rfloor>"
    by (simp_all add: le_floor_iff)
  then show "(x / 2, x) \<in> measure (\<lambda>x. nat \<bar>\<lfloor>log 2 x\<rfloor>\<bar>)"
    unfolding in_measure by linarith
next
  fix x :: real
  assume "\<not> x \<le> 0" "\<not> 2 \<le> x" "x < 1"
  then have "log 2 (2 * x) = 1 + log 2 x" "log 2 x < 0"
    by (simp_all add: log_mult)
  then have "\<lfloor>log 2 (2 * x)\<rfloor> = \<lfloor>log 2 x\<rfloor> + 1" "\<lfloor>log 2 x\<rfloor> < 0"
    by (simp_all add: floor_less_iff)
  then show "(2 * x, x) \<in> measure (\<lambda>x. nat \<bar>\<lfloor>log 2 x\<rfloor>\<bar>)"
    unfolding in_measure by linarith
qed

declare ilog2.simps [simp del]

text \<open>The nearest integer, a tie going to the even one.\<close>

definition round_half_even :: "real \<Rightarrow> int" where
  "round_half_even y =
     (let f = \<lfloor>y\<rfloor>
      in if y - of_int f < 1 / 2 then f
         else if 1 / 2 < y - of_int f then f + 1
         else if even f then f else f + 1)"

text \<open>
  The double nearest to a real (IEEE 754 binary64, round to nearest, ties to even): the
  real is scaled by the power of two that leaves 53 bits before the point, or by
  \<open>2^-1074\<close> in the subnormal range, rounded to an integer and scaled back; a result of
  magnitude \<open>2^1024\<close> or more is an infinity.
\<close>

definition round_double :: "real \<Rightarrow> jsnum" where
  "round_double x =
     (let e = max (ilog2 \<bar>x\<bar> - 52) (- 1074);
          y = of_int (round_half_even (x / pow2 e)) * pow2 e
      in if 2 ^ 1024 \<le> y then PosInf else if y \<le> - (2 ^ 1024) then NegInf else Fin y)"

text \<open>
  The reals that are doubles: those that rounding leaves as they are. A finite number
  \<open>Fin x\<close> that the program holds has \<open>is_double x\<close>.
\<close>

definition is_double :: "real \<Rightarrow> bool" where
  "is_double x = (round_double x = Fin x)"

text \<open>The field values a JSON-like result or configuration object can hold.\<close>

datatype jsval = JUndefined | JNull | JBool bool | JNum jsnum | JStr string

text \<open>\<open>a + b\<close> on numbers: the rounded sum of finite values.\<close>

fun js_add :: "jsnum \<Rightarrow> jsnum \<Rightarrow> jsnum" where
  "js_add NaN _ = NaN"
| "js_add _ NaN = NaN"
| "js_add PosInf NegInf = NaN"
| "js_add NegInf PosInf = NaN"
| "js_add PosInf _ = PosInf"
| "js_add NegInf _ = NegInf"
| "js_add _ PosInf = PosInf"
| "js_add _ NegInf = NegInf"
| "js_add (Fin a) (Fin b) = round_double (a + b)"

text \<open>The sign of a number that is not NaN and not zero: \<open>True\<close> for negative.\<close>

fun js_neg :: "jsnum \<Rightarrow> bool" where
  "js_neg (Fin a) = (a < 0)"
| "js_neg NegInf = True"
| "js_neg _ = False"

text \<open>\<open>a * b\<close> on numbers: the rounded product of finite values; infinity times zero is NaN.\<close>

fun js_mul :: "jsnum \<Rightarrow> jsnum \<Rightarrow> jsnum" where
  "js_mul NaN _ = NaN"
| "js_mul _ NaN = NaN"
| "js_mul (Fin a) (Fin b) = round_double (a * b)"
| "js_mul a b =
     (if a = Fin 0 \<or> b = Fin 0 then NaN
      else if js_neg a = js_neg b then PosInf else NegInf)"

text \<open>
  \<open>a / b\<close> on numbers: the rounded quotient of finite values; \<open>0 / 0\<close> and \<open>\<infinity> / \<infinity>\<close> are
  NaN, any other finite value over zero is an infinity of the dividend's sign (the divisor
  zero is \<open>+0\<close>, see above).
\<close>

fun js_div :: "jsnum \<Rightarrow> jsnum \<Rightarrow> jsnum" where
  "js_div NaN _ = NaN"
| "js_div _ NaN = NaN"
| "js_div (Fin a) (Fin b) =
     (if b = 0 then (if a = 0 then NaN else if a < 0 then NegInf else PosInf)
      else round_double (a / b))"
| "js_div (Fin a) _ = Fin 0"
| "js_div a (Fin b) = (if js_neg a = (b < 0) then PosInf else NegInf)"
| "js_div _ _ = NaN"

text \<open>
  \<open>Number(v)\<close>. The numeric value of a string is the language's StringToNumber, which is
  not code of this repository: it is the parameter \<open>s2n\<close>.
\<close>

fun ToNumber :: "(string \<Rightarrow> jsnum) \<Rightarrow> jsval \<Rightarrow> jsnum" where
  "ToNumber s2n JUndefined = NaN"
| "ToNumber s2n JNull = Fin 0"
| "ToNumber s2n (JBool b) = (if b then Fin 1 else Fin 0)"
| "ToNumber s2n (JNum n) = n"
| "ToNumber s2n (JStr s) = s2n s"

text \<open>Truthiness of a number: zero and NaN are falsy.\<close>

fun truthy :: "jsnum \<Rightarrow> bool" where
  "truthy NaN = False"
| "truthy (Fin a) = (a \<noteq> 0)"
| "truthy _ = True"

text \<open>\<open>n || 0\<close>.\<close>

definition or_zero :: "jsnum \<Rightarrow> jsnum" where
  "or_zero n = (if truthy n then n else Fin 0)"

text \<open>\<open>Number(v) || 0\<close>.\<close>

definition number_or_zero :: "(string \<Rightarrow> jsnum) \<Rightarrow> jsval \<Rightarrow> jsnum" where
  "number_or_zero s2n v = or_zero (ToNumber s2n v)"

text \<open>\<open>Math.round\<close>: the nearest integer, a tie going towards \<open>+\<infinity>\<close>.\<close>

fun Math_round :: "jsnum \<Rightarrow> jsnum" where
  "Math_round (Fin a) = Fin (of_int \<lfloor>a + 1 / 2\<rfloor>)"
| "Math_round n = n"

section \<open>ReportGeneratorV2\<close>

subsection \<open>arithmeticMean\<close>

record item =
  score :: jsval
  weight :: jsval

record mean_acc =
  acc_weight :: jsnum
  acc_sum :: jsnum

text \<open>The callback of \<open>items.reduce\<close>.\<close>

definition mean_step :: "(string \<Rightarrow> jsnum) \<Rightarrow> mean_acc \<Rightarrow> item \<Rightarrow> mean_acc" where
  "mean_step s2n result it =
     (let sc = number_or_zero s2n (score it);
          w = number_or_zero s2n (weight it)
      in \<lparr>acc_weight = js_add (acc_weight result) w,
          acc_sum = js_add (acc_sum result) (js_mul sc w)\<rparr>)"

definition mean_reduce :: "(string \<Rightarrow> jsnum) \<Rightarrow> item list \<Rightarrow> mean_acc" where
  "mean_reduce s2n items = foldl (mean_step s2n) \<lparr>acc_weight = Fin 0, acc_sum = Fin 0\<rparr> items"

text \<open>
  \<open>arithmeticMean\<close>: the reduction, then \<open>(results.sum / results.weight) || 0\<close>.
\<close>

definition arithmeticMean :: "(string \<Rightarrow> jsnum) \<Rightarrow> item list \<Rightarrow> jsnum" where
  "arithmeticMean s2n items =
     (let results = mean_reduce s2n items
      in or_zero (js_div (acc_sum results) (acc_weight results)))"

text \<open>
  For the statements about \<open>arithmeticMean\<close>: the total of the coerced weights and the
  total of the products of coerced score and coerced weight, summed from the left as the
  reduction does.
\<close>

definition total_weight :: "(string \<Rightarrow> jsnum) \<Rightarrow> item list \<Rightarrow> jsnum" where
  "total_weight s2n items =
     foldl js_add (Fin 0) (map (\<lambda>it. number_or_zero s2n (weight it)) items)"

definition weighted_sum :: "(string \<Rightarrow> jsnum) \<Rightarrow> item list \<Rightarrow> jsnum" where
  "weighted_sum s2n items =
     foldl js_add (Fin 0)
       (map (\<lambda>it. js_mul (number_or_zero s2n (score it)) (number_or_zero s2n (weight it))) items)"

text \<open>An item with both fields replaced by what \<open>Number(v) || 0\<close> makes of them.\<close>

definition coerced :: "(string \<Rightarrow> jsnum) \<Rightarrow> item \<Rightarrow> item" where
  "coerced s2n it =
     \<lparr>score = JNum (number_or_zero s2n (score it)), weight = JNum (number_or_zero s2n (weight it))\<rparr>"

subsection \<open>replaceStrings\<close>

text \<open>
  A JavaScript string is a sequence of code units; the functions below work on lists of
  any element type. \<open>split\<close> is \<open>String.prototype.split\<close> with a string separator and no
  limit: the source is cut at the leftmost occurrences of the separator, one after the
  other; an empty separator cuts a non-empty source into its code units and the empty
  source into no part at all. \<open>split_from\<close> is the scan for a separator that is not empty:
  \<open>cur\<close> is the part read so far, the third argument what is left of the source.
\<close>

function split_from :: "'a list \<Rightarrow> 'a list \<Rightarrow> 'a list \<Rightarrow> 'a list list" where
  "split_from sep cur [] = [cur]"
| "split_from sep cur (c # cs) =
     (if sep \<noteq> [] \<and> prefix sep (c # cs)
      then cur # split_from sep [] (drop (length sep) (c # cs))
      else split_from sep (cur @ [c]) cs)"
  by pat_completeness auto
termination
  by (relation "measure (\<lambda>(sep, cur, rest). length rest)") auto

definition split :: "'a list \<Rightarrow> 'a list \<Rightarrow> 'a list list" where
  "split sep s = (if sep = [] then map (\<lambda>c. [c]) s else split_from sep [] s)"

text \<open>\<open>Array.prototype.join\<close> on an array of strings.\<close>

fun join :: "'a list \<Rightarrow> 'a list list \<Rightarrow> 'a list" where
  "join sep [] = []"
| "join sep [p] = p"
| "join sep (p # q # ps) = p @ sep @ join sep (q # ps)"

record 'a replacement_pair =
  search :: "'a list"
  replacement :: "'a list"

fun replaceStrings :: "'a list \<Rightarrow> 'a replacement_pair list \<Rightarrow> 'a list" where
  "replaceStrings source [] = source"
| "replaceStrings source (firstReplacement # nextReplacements) =
     join (replacement firstReplacement)
       (map (\<lambda>part. replaceStrings part nextReplacements)
          (split (search firstReplacement) source))"

text \<open>
  For the statement of what \<open>replaceStrings\<close> does: the source as a sequence of segments,
  each one either text that is kept or an occurrence of a search string that is replaced.
  \<open>segments\<close> cuts the source exactly as \<open>replaceStrings\<close> does and records the cuts.
\<close>

datatype 'a segment = Kept "'a list" | Replaced "'a replacement_pair"

fun segments :: "'a list \<Rightarrow> 'a replacement_pair list \<Rightarrow> 'a segment list" where
  "segments source [] = [Kept source]"
| "segments source (firstReplacement # nextReplacements) =
     join [Replaced firstReplacement]
       (map (\<lambda>part. segments part nextReplacements)
          (split (search firstReplacement) source))"

fun segment_source :: "'a segment \<Rightarrow> 'a list" where
  "segment_source (Kept t) = t"
| "segment_source (Replaced r) = search r"

fun segment_output :: "'a segment \<Rightarrow> 'a list" where
  "segment_output (Kept t) = t"
| "segment_output (Replaced r) = replacement r"

text \<open>\<open>String.prototype.includes\<close>: the pattern occurs in the text.\<close>

fun js_includes :: "'a list \<Rightarrow> 'a list \<Rightarrow> bool" where
  "js_includes [] pat = (pat = [])"
| "js_includes (c # cs) pat = (prefix pat (c # cs) \<or> js_includes cs pat)"

subsection \<open>generateReportJson\<close>

datatype js_error = Error string | TypeError

text \<open>
  The details payload of a result, as the renderer's type \<open>DetailsJSON\<close> declares it:
  a type tag, and a text, a header and items that may each be undefined.
\<close>

datatype details =
  Details (dtype: string) (dtext: "string option") (dheader: "details option")
    (ditems: "details list option")

record raw_result =
  result_score :: jsval
  description :: string
  displayValue :: "string option"
  optimalValue :: "string option"
  helpText :: string
  result_details :: "details option"

record audit_def =
  audit_id :: string
  audit_weight :: jsval

record category_def =
  cat_name :: string
  cat_description :: string
  cat_weight :: jsval
  cat_audits :: "audit_def list"

text \<open>
  \<open>AuditJSON\<close> and \<open>CategoryJSON\<close>: the definition's fields, with the result and the
  computed score assigned over them.
\<close>

record audit_json =
  a_id :: string
  a_weight :: jsval
  a_result :: raw_result
  a_score :: jsnum

record category_json =
  c_name :: string
  c_description :: string
  c_weight :: jsval
  c_audits :: "audit_json list"
  c_score :: jsnum

record report_score_tree =
  overall_score :: jsnum
  categories :: "category_json list"

text \<open>
  An object used as a mapping is the list of its keys and values in the order of
  \<open>Object.keys\<close>, read by key with \<open>map_of\<close>; the keys of an object are distinct.
  \<open>config.categories\<close> and \<open>resultsByAuditId\<close> are such objects.
\<close>

type_synonym config = "(string \<times> category_def) list"
type_synonym results_by_id = "(string \<times> raw_result) list"

definition Object_keys :: "('k \<times> 'v) list \<Rightarrow> 'k list" where
  "Object_keys obj = map fst obj"

text \<open>\<open>Array.prototype.map\<close> with a callback that may throw: the first throw ends it.\<close>

fun map_throwing :: "('a \<Rightarrow> js_error + 'b) \<Rightarrow> 'a list \<Rightarrow> js_error + 'b list" where
  "map_throwing f [] = Inr []"
| "map_throwing f (x # xs) =
     (case f x of
        Inl e \<Rightarrow> Inl e
      | Inr y \<Rightarrow> (case map_throwing f xs of Inl e \<Rightarrow> Inl e | Inr ys \<Rightarrow> Inr (y # ys)))"

text \<open>The normalised score of a result (lines 78 to 81).\<close>

definition auditScore :: "(string \<Rightarrow> jsnum) \<Rightarrow> jsval \<Rightarrow> jsnum" where
  "auditScore s2n sc =
     (let auditScore = number_or_zero s2n sc
      in case sc of JBool b \<Rightarrow> (if b then Fin 100 else Fin 0) | _ \<Rightarrow> auditScore)"

text \<open>
  The callback of \<open>category.audits.map\<close>. Reading \<open>result.score\<close> of a result that the
  mapping does not hold throws a TypeError.
\<close>

definition score_audit ::
  "(string \<Rightarrow> jsnum) \<Rightarrow> results_by_id \<Rightarrow> audit_def \<Rightarrow> js_error + audit_json" where
  "score_audit s2n resultsByAuditId audit =
     (case map_of resultsByAuditId (audit_id audit) of
        None \<Rightarrow> Inl TypeError
      | Some result \<Rightarrow>
          Inr \<lparr>a_id = audit_id audit, a_weight = audit_weight audit, a_result = result,
               a_score = auditScore s2n (result_score result)\<rparr>)"

definition audit_item :: "audit_json \<Rightarrow> item" where
  "audit_item a = \<lparr>score = JNum (a_score a), weight = a_weight a\<rparr>"

definition category_item :: "category_json \<Rightarrow> item" where
  "category_item c = \<lparr>score = JNum (c_score c), weight = c_weight c\<rparr>"

text \<open>
  The callback of \<open>Object.keys(config.categories).map\<close>. Reading \<open>audits\<close> of a category
  that the configuration does not hold would throw a TypeError; the keys come from the
  configuration, so this does not happen.
\<close>

definition score_category ::
  "(string \<Rightarrow> jsnum) \<Rightarrow> config \<Rightarrow> results_by_id \<Rightarrow> string \<Rightarrow> js_error + category_json" where
  "score_category s2n config resultsByAuditId categoryId =
     (case map_of config categoryId of
        None \<Rightarrow> Inl TypeError
      | Some category \<Rightarrow>
          (case map_throwing (score_audit s2n resultsByAuditId) (cat_audits category) of
             Inl e \<Rightarrow> Inl e
           | Inr audits \<Rightarrow>
               (let categoryScore = Math_round (arithmeticMean s2n (map audit_item audits))
                in Inr \<lparr>c_name = cat_name category, c_description = cat_description category,
                         c_weight = cat_weight category, c_audits = audits,
                         c_score = categoryScore\<rparr>)))"

definition generateReportJson ::
  "(string \<Rightarrow> jsnum) \<Rightarrow> config \<Rightarrow> results_by_id \<Rightarrow> js_error + report_score_tree" where
  "generateReportJson s2n config resultsByAuditId =
     (case map_throwing (score_category s2n config resultsByAuditId) (Object_keys config) of
        Inl e \<Rightarrow> Inl e
      | Inr cats \<Rightarrow>
          (let overallScore = arithmeticMean s2n (map category_item cats)
           in Inr \<lparr>overall_score = overallScore, categories = cats\<rparr>))"

text \<open>
  For the statements about the scores: the finite value of a number, the coerced score and
  weight of an item as reals, the exact weighted mean of such pairs (\<open>0\<close> at total weight
  \<open>0\<close>), the items whose coerced score is an integer from \<open>0\<close> to \<open>100\<close> and whose coerced
  weight is an integer that is not negative, and the lists of such items whose weights
  total at most \<open>2^45\<close>. On such a list every product and sum of the reduction is an
  integer below \<open>2^53\<close> and so exact in double arithmetic.
\<close>

fun fin_val :: "jsnum \<Rightarrow> real" where
  "fin_val (Fin a) = a"
| "fin_val _ = 0"

definition item_pair :: "(string \<Rightarrow> jsnum) \<Rightarrow> item \<Rightarrow> real \<times> real" where
  "item_pair s2n it =
     (fin_val (number_or_zero s2n (score it)), fin_val (number_or_zero s2n (weight it)))"

definition weighted_mean :: "(real \<times> real) list \<Rightarrow> real" where
  "weighted_mean ps =
     (let W = sum_list (map snd ps); S = sum_list (map (\<lambda>(s, w). s * w) ps)
      in if W = 0 then 0 else S / W)"

definition integral :: "real \<Rightarrow> bool" where
  "integral x = (of_int \<lfloor>x\<rfloor> = x)"

definition in_range :: "(string \<Rightarrow> jsnum) \<Rightarrow> item \<Rightarrow> bool" where
  "in_range s2n it =
     (case (number_or_zero s2n (score it), number_or_zero s2n (weight it)) of
        (Fin s, Fin w) \<Rightarrow> integral s \<and> 0 \<le> s \<and> s \<le> 100 \<and> integral w \<and> 0 \<le> w
      | _ \<Rightarrow> False)"

definition all_in_range :: "(string \<Rightarrow> jsnum) \<Rightarrow> item list \<Rightarrow> bool" where
  "all_in_range s2n items =
     (list_all (in_range s2n) items \<and>
      sum_list (map (\<lambda>it. fin_val (number_or_zero s2n (weight it))) items) \<le> 2 ^ 45)"

text \<open>The definition that a scored audit or category was made from.\<close>

definition audit_def_of :: "audit_json \<Rightarrow> audit_def" where
  "audit_def_of a = \<lparr>audit_id = a_id a, audit_weight = a_weight a\<rparr>"

definition category_def_of :: "category_json \<Rightarrow> category_def" where
  "category_def_of c =
     \<lparr>cat_name = c_name c, cat_description = c_description c, cat_weight = c_weight c,
      cat_audits = map audit_def_of (c_audits c)\<rparr>"

subsection \<open>Sample inputs\<close>

text \<open>
  A configuration of two categories with results listed in another order than the audits,
  a configuration and results with malformed weights and scores, and a result whose score
  is above \<open>100\<close>. \<open>sample_s2n\<close> stands for StringToNumber on the strings that occur.
\<close>

definition sample_s2n :: "string \<Rightarrow> jsnum" where
  "sample_s2n s = (if s = ''90'' then Fin 90 else NaN)"

definition sample_result :: "jsval \<Rightarrow> raw_result" where
  "sample_result sc =
     \<lparr>result_score = sc, description = ''First paint'', displayValue = None,
      optimalValue = None, helpText = ''help'', result_details = None\<rparr>"

definition sample_config :: config where
  "sample_config =
     [(''perf'', \<lparr>cat_name = ''Perf'', cat_description = ''Speed'', cat_weight = JNum (Fin 1),
         cat_audits = [\<lparr>audit_id = ''A'', audit_weight = JNum (Fin 1)\<rparr>,
                       \<lparr>audit_id = ''B'', audit_weight = JNum (Fin 3)\<rparr>]\<rparr>),
      (''pwa'', \<lparr>cat_name = ''PWA'', cat_description = ''App'', cat_weight = JNum (Fin 1),
         cat_audits = [\<lparr>audit_id = ''C'', audit_weight = JNum (Fin 1)\<rparr>,
                       \<lparr>audit_id = ''D'', audit_weight = JNum (Fin 1)\<rparr>,
                       \<lparr>audit_id = ''E'', audit_weight = JUndefined\<rparr>]\<rparr>)]"

definition sample_results :: results_by_id where
  "sample_results =
     [(''E'', sample_result (JNum (Fin 7))), (''D'', sample_result (JNum (Fin 2))),
      (''C'', sample_result (JBool True)), (''B'', sample_result (JStr ''90'')),
      (''A'', sample_result (JNum (Fin 50)))]"

definition sample_results_reordered :: results_by_id where
  "sample_results_reordered =
     [(''A'', sample_result (JNum (Fin 50))), (''B'', sample_result (JStr ''90'')),
      (''C'', sample_result (JBool True)), (''D'', sample_result (JNum (Fin 2))),
      (''E'', sample_result (JNum (Fin 7)))]"


definition malformed_config :: config where
  "malformed_config =
     [(''seo'', \<lparr>cat_name = ''SEO'', cat_description = ''Search'', cat_weight = JStr ''heavy'',
         cat_audits = [\<lparr>audit_id = ''A'', audit_weight = JUndefined\<rparr>,
                       \<lparr>audit_id = ''B'', audit_weight = JStr ''much''\<rparr>,
                       \<lparr>audit_id = ''C'', audit_weight = JNum (Fin 2)\<rparr>,
                       \<lparr>audit_id = ''D'', audit_weight = JNull\<rparr>]\<rparr>)]"

definition malformed_results :: results_by_id where
  "malformed_results =
     [(''A'', sample_result JUndefined), (''B'', sample_result JNull),
      (''C'', sample_result (JBool False)), (''D'', sample_result (JStr ''n/a''))]"

definition overscored_config :: config where
  "overscored_config =
     [(''perf'', \<lparr>cat_name = ''Perf'', cat_description = ''Speed'', cat_weight = JNum (Fin 1),
         cat_audits = [\<lparr>audit_id = ''A'', audit_weight = JNum (Fin 1)\<rparr>]\<rparr>)]"

definition overscored_results :: results_by_id where
  "overscored_results = [(''A'', sample_result (JNum (Fin 500)))]"

text \<open>
  The double nearest to \<open>0.1\<close>, and a category of two audits with that weight and the
  scores \<open>1\<close> and \<open>100\<close>.
\<close>

definition double_tenth :: real where
  "double_tenth = 3602879701896397 / 36028797018963968"

definition tenths_config :: config where
  "tenths_config =
     [(''perf'', \<lparr>cat_name = ''Perf'', cat_description = ''Speed'', cat_weight = JNum (Fin 1),
         cat_audits = [\<lparr>audit_id = ''A'', audit_weight = JNum (Fin double_tenth)\<rparr>,
                       \<lparr>audit_id = ''B'', audit_weight = JNum (Fin double_tenth)\<rparr>]\<rparr>)]"

definition tenths_results :: results_by_id where
  "tenths_results = [(''A'', sample_result (JNum (Fin 1))), (''B'', sample_result (JNum (Fin 100)))]"

section \<open>ReportRenderer\<close>

subsection \<open>calculateRating\<close>

text \<open>
  The table \<open>RATINGS\<close>. \<open>FAIL\<close> has no \<open>minScore\<close>; the field is never read, and as a
  number undefined is NaN.
\<close>

record rating =
  label :: string
  minScore :: jsnum

definition RATINGS_PASS :: rating where
  "RATINGS_PASS = \<lparr>label = ''pass'', minScore = Fin 75\<rparr>"

definition RATINGS_AVERAGE :: rating where
  "RATINGS_AVERAGE = \<lparr>label = ''average'', minScore = Fin 45\<rparr>"

definition RATINGS_FAIL :: rating where
  "RATINGS_FAIL = \<lparr>label = ''fail'', minScore = NaN\<rparr>"

text \<open>\<open>a >= b\<close> on numbers: false when either is NaN.\<close>

fun js_ge :: "jsnum \<Rightarrow> jsnum \<Rightarrow> bool" where
  "js_ge NaN _ = False"
| "js_ge _ NaN = False"
| "js_ge PosInf _ = True"
| "js_ge _ NegInf = True"
| "js_ge NegInf _ = False"
| "js_ge _ PosInf = False"
| "js_ge (Fin a) (Fin b) = (b \<le> a)"

text \<open>\<open>a < b\<close> on numbers: false when either is NaN.\<close>

definition js_lt :: "jsnum \<Rightarrow> jsnum \<Rightarrow> bool" where
  "js_lt a b = (a \<noteq> NaN \<and> b \<noteq> NaN \<and> \<not> js_ge a b)"

text \<open>
  \<open>calculateRating\<close>. The branch for the precision \<open>grade\<close> is empty, so \<open>grade\<close> and every
  other precision that is not \<open>numeric\<close> reach the binary default.
\<close>

definition calculateRating :: "jsnum \<Rightarrow> string \<Rightarrow> string" where
  "calculateRating sc precision =
     (if precision = ''numeric''
      then (if js_ge sc (minScore RATINGS_PASS) then label RATINGS_PASS
            else if js_ge sc (minScore RATINGS_AVERAGE) then label RATINGS_AVERAGE
            else label RATINGS_FAIL)
      else if sc = Fin 100 then label RATINGS_PASS else label RATINGS_FAIL)"

subsection \<open>The document\<close>

text \<open>
  The host's document, as far as the renderer uses it. A node is an element (tag name,
  class list, the \<open>open\<close> property, children) or a text. A template's content and a clone
  of it are lists of nodes.
\<close>

datatype node =
  Element (tagName: string) (classList: "string list") (is_open: bool)
    (childNodes: "node list")
| Text string

text \<open>
  What the host provides and this repository does not define: the templates of the
  document by selector, \<open>Number.prototype.toLocaleString\<close> with at most one fraction
  digit, and the \<open>stack\<close> text of an error.
\<close>

record host =
  templates :: "string \<Rightarrow> node list option"
  toLocaleString :: "jsnum \<Rightarrow> string"
  stack :: "js_error \<Rightarrow> string"

definition formatNumber :: "host \<Rightarrow> jsnum \<Rightarrow> string" where
  "formatNumber h number = toLocaleString h number"

text \<open>Assigning \<open>element.textContent\<close>: the children become one text, or none for the empty string.\<close>

fun set_textContent :: "string \<Rightarrow> node \<Rightarrow> node" where
  "set_textContent s (Element t cs opn ks) = Element t cs opn (if s = [] then [] else [Text s])"
| "set_textContent s (Text _) = Text s"

text \<open>\<open>element.classList.add(...classes)\<close>.\<close>

fun classList_add :: "string list \<Rightarrow> node \<Rightarrow> node" where
  "classList_add classes (Element t cs opn ks) =
     Element t (foldl (\<lambda>acc c. if c \<in> set acc then acc else acc @ [c]) cs classes) opn ks"
| "classList_add classes (Text s) = Text s"

fun set_open :: "bool \<Rightarrow> node \<Rightarrow> node" where
  "set_open b (Element t cs opn ks) = Element t cs b ks"
| "set_open b (Text s) = Text s"

fun appendChild :: "node \<Rightarrow> node \<Rightarrow> node" where
  "appendChild child (Element t cs opn ks) = Element t cs opn (ks @ [child])"
| "appendChild child (Text s) = Text s"

text \<open>
  \<open>querySelector\<close> with a class selector \<open>.name\<close>: the first element in document order
  whose class list holds \<open>name\<close>. The renderer changes the element it finds in place;
  \<open>on_first\<close> is the tree after that change, and the tree itself when nothing is found
  (\<open>DOM.setText\<close> and \<open>DOM.addClass\<close> do nothing on null).
\<close>

fun find_node :: "string \<Rightarrow> node \<Rightarrow> node option"
  and find_nodes :: "string \<Rightarrow> node list \<Rightarrow> node option" where
  "find_node c (Text s) = None"
| "find_node c (Element t cs opn ks) =
     (if c \<in> set cs then Some (Element t cs opn ks) else find_nodes c ks)"
| "find_nodes c [] = None"
| "find_nodes c (n # ns) =
     (case find_node c n of Some m \<Rightarrow> Some m | None \<Rightarrow> find_nodes c ns)"

fun change_node :: "string \<Rightarrow> (node \<Rightarrow> node) \<Rightarrow> node \<Rightarrow> node option"
  and change_nodes :: "string \<Rightarrow> (node \<Rightarrow> node) \<Rightarrow> node list \<Rightarrow> node list option" where
  "change_node c f (Text s) = None"
| "change_node c f (Element t cs opn ks) =
     (if c \<in> set cs then Some (f (Element t cs opn ks))
      else map_option (Element t cs opn) (change_nodes c f ks))"
| "change_nodes c f [] = None"
| "change_nodes c f (n # ns) =
     (case change_node c f n of
        Some n' \<Rightarrow> Some (n' # ns)
      | None \<Rightarrow> map_option ((#) n) (change_nodes c f ns))"

definition querySelector :: "string \<Rightarrow> node list \<Rightarrow> node option" where
  "querySelector selector fragment = find_nodes (tl selector) fragment"

definition on_first :: "string \<Rightarrow> (node \<Rightarrow> node) \<Rightarrow> node list \<Rightarrow> node list" where
  "on_first selector f fragment =
     (case change_nodes (tl selector) f fragment of None \<Rightarrow> fragment | Some fragment' \<Rightarrow> fragment')"

subsection \<open>DOM\<close>

text \<open>\<open>createElement\<close> with a class name; no caller passes attributes.\<close>

definition createElement :: "string \<Rightarrow> string \<Rightarrow> node" where
  "createElement name className = Element name (if className = [] then [] else [className]) False []"

definition cloneTemplate :: "host \<Rightarrow> string \<Rightarrow> js_error + node list" where
  "cloneTemplate h selector =
     (case templates h selector of
        None \<Rightarrow> Inl (Error (''Template not found: template'' @ selector))
      | Some content \<Rightarrow> Inr content)"

subsection \<open>Rendering details\<close>

text \<open>
  The methods \<open>_renderDetails\<close>, \<open>_renderText\<close>, \<open>_renderBlock\<close>, \<open>_renderList\<close> and the
  others of \<open>ReportRenderer\<close> are named here without the leading underscore;
  \<open>_renderReport\<close> is \<open>renderReport_inner\<close>. A result is \<open>Inl e\<close> when the method throws
  \<open>e\<close>. \<open>renderItems\<close> is the loop over \<open>items\<close> that renders each item; iterating over
  undefined items throws a TypeError. Assigning an undefined text to \<open>textContent\<close> leaves
  the element without children, as the empty string does.
\<close>

definition renderText :: "details \<Rightarrow> node" where
  "renderText text =
     set_textContent (case dtext text of None \<Rightarrow> [] | Some s \<Rightarrow> s)
       (createElement ''div'' ''lighthouse-text'')"

fun renderDetails :: "host \<Rightarrow> details \<Rightarrow> js_error + node"
  and renderBlock :: "host \<Rightarrow> details \<Rightarrow> js_error + node"
  and renderList :: "host \<Rightarrow> details \<Rightarrow> js_error + node"
  and renderItems :: "host \<Rightarrow> details list \<Rightarrow> js_error + node list" where
  "renderDetails h (Details ty tx hdr its) =
     (if ty = ''text'' then Inr (renderText (Details ty tx hdr its))
      else if ty = ''block'' then renderBlock h (Details ty tx hdr its)
      else if ty = ''list'' then renderList h (Details ty tx hdr its)
      else Inl (Error (''Unknown type: '' @ ty)))"
| "renderBlock h (Details ty tx hdr its) =
     (case its of
        None \<Rightarrow> Inl TypeError
      | Some xs \<Rightarrow>
          (case renderItems h xs of
             Inl e \<Rightarrow> Inl e
           | Inr els \<Rightarrow> Inr (foldl (\<lambda>element el. appendChild el element)
                              (createElement ''div'' ''lighthouse-block'') els)))"
| "renderList h (Details ty tx hdr its) =
     (let element = createElement ''details'' ''lighthouse-list'';
          element =
            (case hdr of
               None \<Rightarrow> element
             | Some hd0 \<Rightarrow>
                 appendChild
                   (set_textContent (case dtext hd0 of None \<Rightarrow> [] | Some s \<Rightarrow> s)
                      (createElement ''summary'' ''lighthouse-list__header''))
                   element)
      in case its of
           None \<Rightarrow> Inl TypeError
         | Some xs \<Rightarrow>
             (case renderItems h xs of
                Inl e \<Rightarrow> Inl e
              | Inr els \<Rightarrow>
                  Inr (appendChild
                         (foldl (\<lambda>element el. appendChild el element)
                            (createElement ''div'' ''lighthouse-list__items'') els)
                         element)))"
| "renderItems h [] = Inr []"
| "renderItems h (x # xs) =
     (case renderDetails h x of
        Inl e \<Rightarrow> Inl e
      | Inr el \<Rightarrow> (case renderItems h xs of Inl e \<Rightarrow> Inl e | Inr els \<Rightarrow> Inr (el # els)))"

subsection \<open>Rendering scores, audits and categories\<close>

datatype audit_or_category = Audit audit_json | Category category_json

text \<open>
  \<open>_renderScore\<close>. \<open>isAudit\<close> is \<open>'result' in auditOrCategory\<close>. The clone of the template
  is changed step by step, each step on the element that \<open>querySelector\<close> finds at that
  point; the value element is found once and both changed through that reference.
\<close>

definition renderScore ::
  "host \<Rightarrow> jsnum \<Rightarrow> string \<Rightarrow> string \<Rightarrow> audit_or_category \<Rightarrow> js_error + node list" where
  "renderScore h sc title descr auditOrCategory =
     (let isAudit = (case auditOrCategory of Audit _ \<Rightarrow> True | Category _ \<Rightarrow> False);
          precision = (if isAudit then ''binary'' else ''category'');
          rating = calculateRating sc precision
      in case (if isAudit then cloneTemplate h ''#tmpl-lighthouse-audit-score''
               else cloneTemplate h ''#tmpl-lighthouse-category-score'') of
           Inl e \<Rightarrow> Inl e
         | Inr tmpl \<Rightarrow>
             (let tmpl = on_first ''.lighthouse-score__value''
                    (\<lambda>value. classList_add
                       [''lighthouse-score__value--'' @ rating,
                        ''lighthouse-score__value--'' @ precision]
                       (set_textContent (formatNumber h sc) value)) tmpl;
                  tmpl = on_first ''.lighthouse-score__title'' (set_textContent title) tmpl;
                  tmpl = on_first ''.lighthouse-score__description'' (set_textContent descr) tmpl
              in case auditOrCategory of
                   Category _ \<Rightarrow> Inr tmpl
                 | Audit audit \<Rightarrow>
                     (case querySelector ''.lighthouse-score__header'' tmpl of
                        None \<Rightarrow> Inr tmpl
                      | Some _ \<Rightarrow>
                          (let tmpl = on_first ''.lighthouse-score__header''
                                 (set_open (js_lt sc (Fin 100))) tmpl
                           in case result_details (a_result audit) of
                                None \<Rightarrow> Inr tmpl
                              | Some d \<Rightarrow>
                                  (case renderDetails h d of
                                     Inl e \<Rightarrow> Inl e
                                   | Inr el \<Rightarrow>
                                       Inr (on_first ''.lighthouse-score__header''
                                              (appendChild el) tmpl))))))"

text \<open>
  The title that \<open>_renderAudit\<close> builds (lines 289 to 295). A display value or optimal
  value is appended when it is truthy: defined and not the empty string.
\<close>

definition audit_title :: "raw_result \<Rightarrow> string" where
  "audit_title result =
     (let title = description result;
          title = (case displayValue result of
                     None \<Rightarrow> title
                   | Some dv \<Rightarrow> if dv = [] then title else title @ '':  '' @ dv);
          title = (case optimalValue result of
                     None \<Rightarrow> title
                   | Some ov \<Rightarrow> if ov = [] then title else title @ '' (target: '' @ ov @ '')'')
      in title)"

text \<open>Appending a fragment to an element appends the fragment's nodes.\<close>

definition renderAudit :: "host \<Rightarrow> audit_json \<Rightarrow> js_error + node" where
  "renderAudit h audit =
     (let element = createElement ''div'' ''lighthouse-audit'';
          title = audit_title (a_result audit)
      in case renderScore h (a_score audit) title (helpText (a_result audit)) (Audit audit) of
           Inl e \<Rightarrow> Inl e
         | Inr tmpl \<Rightarrow> Inr (foldl (\<lambda>element el. appendChild el element) element tmpl))"

definition renderCategory :: "host \<Rightarrow> category_json \<Rightarrow> js_error + node" where
  "renderCategory h category =
     (let element = createElement ''div'' ''lighthouse-category''
      in case renderScore h (c_score category) (c_name category) (c_description category)
                (Category category) of
           Inl e \<Rightarrow> Inl e
         | Inr tmpl \<Rightarrow>
             (let element = foldl (\<lambda>element el. appendChild el element) element tmpl
              in case map_throwing (renderAudit h) (c_audits category) of
                   Inl e \<Rightarrow> Inl e
                 | Inr els \<Rightarrow> Inr (foldl (\<lambda>element el. appendChild el element) element els)))"

subsection \<open>renderReport\<close>

record report_json =
  reportCategories :: "category_json list"

definition renderReport_inner :: "host \<Rightarrow> report_json \<Rightarrow> js_error + node" where
  "renderReport_inner h report =
     (let element = createElement ''div'' ''lighthouse-report''
      in case map_throwing (renderCategory h) (reportCategories report) of
           Inl e \<Rightarrow> Inl e
         | Inr els \<Rightarrow> Inr (foldl (\<lambda>element el. appendChild el element) element els))"

definition renderException :: "host \<Rightarrow> js_error \<Rightarrow> node" where
  "renderException h e =
     set_textContent (stack h e) (createElement ''div'' ''lighthouse-exception'')"

text \<open>\<open>renderReport\<close>: \<open>Inr\<close> the element it returns, \<open>Inl\<close> what it throws to its caller.\<close>

definition renderReport :: "host \<Rightarrow> report_json \<Rightarrow> js_error + node" where
  "renderReport h report =
     (case renderReport_inner h report of
        Inr element \<Rightarrow> Inr element
      | Inl e \<Rightarrow> Inr (renderException h e))"

subsection \<open>A sample host and report\<close>

text \<open>
  A host with the two score templates, whose audit template has a header, and a report
  whose one audit carries a details tree with a node of the unknown type \<open>graph\<close> inside
  a block inside a list.
\<close>

definition sample_stack :: "js_error \<Rightarrow> string" where
  "sample_stack e = (case e of Error message \<Rightarrow> ''Error: '' @ message | TypeError \<Rightarrow> ''TypeError'')"

definition sample_templates :: "string \<Rightarrow> node list option" where
  "sample_templates selector =
     (if selector = ''#tmpl-lighthouse-category-score''
      then Some [Element ''div'' [''lighthouse-score''] False
                  [Element ''div'' [''lighthouse-score__value''] False [],
                   Element ''div'' [''lighthouse-score__title''] False []]]
      else if selector = ''#tmpl-lighthouse-audit-score''
      then Some [Element ''details'' [''lighthouse-score__header''] False
                  [Element ''div'' [''lighthouse-score__value''] False [],
                   Element ''div'' [''lighthouse-score__title''] False []]]
      else None)"

definition sample_host :: host where
  "sample_host =
     \<lparr>templates = sample_templates,
      toLocaleString = (\<lambda>n. if n = Fin 92 then ''92'' else ''0''),
      stack = sample_stack\<rparr>"

definition sample_category :: category_json where
  "sample_category =
     \<lparr>c_name = ''Perf'', c_description = ''Speed'', c_weight = JNum (Fin 1), c_audits = [],
      c_score = Fin 92\<rparr>"

definition graph_details :: details where
  "graph_details =
     Details ''list'' None (Some (Details ''text'' (Some ''Requests'') None None))
       (Some [Details ''text'' (Some ''a.js'') None None,
              Details ''block'' None None (Some [Details ''graph'' None None None])])"

definition graph_report :: report_json where
  "graph_report =
     \<lparr>reportCategories =
        [sample_category
           \<lparr>c_audits :=
              [\<lparr>a_id = ''A'', a_weight = JNum (Fin 1),
                a_result = (sample_result (JNum (Fin 92)))\<lparr>result_details := Some graph_details\<rparr>,
                a_score = Fin 92\<rparr>]\<rparr>]\<rparr>"

section \<open>Properties of the score aggregation\<close>

subsection \<open>Rounding to a double\<close>

lemma pow2_pos: "0 < pow2 e"
  by (simp add: pow2_def)

lemma pow2_powr: "pow2 e = 2 powr (real_of_int e)"
proof (cases "0 \<le> e")
  case True
  then show ?thesis
    by (simp add: pow2_def powr_realpow[symmetric])
next
  case False
  have "(2::real) powr (real_of_int e) = 1 / 2 powr (real_of_int (- e))"
    by (simp add: powr_minus_divide)
  also have "\<dots> = 1 / 2 ^ nat (- e)"
    using False by (simp add: powr_realpow[symmetric])
  finally show ?thesis using False by (simp add: pow2_def)
qed

lemma pow2_add: "pow2 (a + b) = pow2 a * pow2 b"
  by (simp add: pow2_powr powr_add)

lemma pow2_nat: "pow2 (int n) = 2 ^ n"
  by (simp add: pow2_def)

lemma pow2_0: "pow2 0 = 1"
  by (simp add: pow2_def)

lemma pow2_succ: "pow2 (k + 1) = 2 * pow2 k"
  using pow2_add[of k 1] by (simp add: pow2_nat[of 1, simplified])

lemma pow2_pred: "2 * pow2 (k - 1) = pow2 k"
  using pow2_succ[of "k - 1"] by simp

lemma pow2_mono: "a \<le> b \<Longrightarrow> pow2 a \<le> pow2 b"
  by (simp add: pow2_powr)

lemma pow2_less: "a < b \<Longrightarrow> pow2 a < pow2 b"
  by (simp add: pow2_powr)

lemma ilog2_bounds: "0 < x \<Longrightarrow> pow2 (ilog2 x) \<le> x \<and> x < pow2 (ilog2 x + 1)"
proof (induction x rule: ilog2.induct)
  case (1 x)
  show ?case
  proof (cases "2 \<le> x")
    case True
    define k where "k = ilog2 (x / 2)"
    from 1 True have "pow2 k \<le> x / 2 \<and> x / 2 < pow2 (k + 1)" by (simp add: k_def)
    then have "2 * pow2 k \<le> x \<and> x < 2 * (2 * pow2 k)"
      unfolding pow2_succ by linarith
    moreover have "ilog2 x = k + 1"
      using True "1.prems" unfolding k_def by (subst ilog2.simps) simp
    ultimately show ?thesis by (simp only: pow2_succ)
  next
    case False
    show ?thesis
    proof (cases "x < 1")
      case True
      define k where "k = ilog2 (2 * x)"
      from 1 False True have "pow2 k \<le> 2 * x \<and> 2 * x < pow2 (k + 1)" by (simp add: k_def)
      then have "2 * pow2 (k - 1) \<le> 2 * x \<and> 2 * x < 2 * pow2 k"
        unfolding pow2_succ pow2_pred by linarith
      then have "pow2 (k - 1) \<le> x \<and> x < pow2 (k - 1 + 1)" by simp
      moreover have "ilog2 x = k - 1"
        using True False "1.prems" unfolding k_def by (subst ilog2.simps) simp
      ultimately show ?thesis by (simp only:)
    next
      case False
      with \<open>\<not> 2 \<le> x\<close> "1.prems" have "ilog2 x = 0"
        by (subst ilog2.simps) simp
      with False \<open>\<not> 2 \<le> x\<close> show ?thesis by (simp add: pow2_def)
    qed
  qed
qed

lemma ilog2_less: "0 < x \<Longrightarrow> x < pow2 k \<Longrightarrow> ilog2 x < k"
proof (rule ccontr)
  assume x: "0 < x" "x < pow2 k" and "\<not> ilog2 x < k"
  then have "pow2 k \<le> pow2 (ilog2 x)" by (intro pow2_mono) simp
  with ilog2_bounds[OF x(1)] x(2) show False by simp
qed

lemma round_half_even_of_int: "round_half_even (of_int n) = n"
  by (simp add: round_half_even_def)

lemma round_half_even_ge: "of_int n \<le> y \<Longrightarrow> n \<le> round_half_even y"
proof -
  assume "of_int n \<le> y"
  then have "n \<le> \<lfloor>y\<rfloor>" by (simp add: le_floor_iff)
  then show ?thesis by (auto simp: round_half_even_def Let_def)
qed

lemma round_half_even_le: "y \<le> of_int n \<Longrightarrow> round_half_even y \<le> n"
proof -
  assume a: "y \<le> of_int n"
  have "\<lfloor>y\<rfloor> \<le> n" using a by linarith
  moreover have "\<lfloor>y\<rfloor> < n" if "\<not> y - of_int \<lfloor>y\<rfloor> < 1 / 2"
  proof -
    from that have "of_int \<lfloor>y\<rfloor> < y" by linarith
    with a have "of_int \<lfloor>y\<rfloor> < (of_int n :: real)" by linarith
    then show ?thesis by simp
  qed
  ultimately show ?thesis by (auto simp: round_half_even_def Let_def)
qed

lemma round_double_not_NaN: "round_double x \<noteq> NaN"
  by (simp add: round_double_def Let_def)

lemma round_double_0 [simp]: "round_double 0 = Fin 0"
  by (simp add: round_double_def Let_def round_half_even_def)

lemma pow2_diff: "pow2 (a - b) = pow2 a / pow2 b"
  using pow2_add[of "a - b" b] pow2_pos[of b] by (simp add: field_simps)

lemma pow2_int: "0 \<le> e \<Longrightarrow> pow2 e = of_int (2 ^ nat e)"
  by (simp add: pow2_def)

lemma pow2_numeral: "pow2 (numeral n) = 2 ^ numeral n" "pow2 (- numeral n) = 1 / 2 ^ numeral n"
  by (simp_all add: pow2_def)

text \<open>A real \<open>m * 2^e\<close> with \<open>m\<close> of less than 54 bits and \<open>e\<close> at least \<open>-1074\<close>, below \<open>2^1024\<close>, is a double.\<close>

lemma round_double_exact:
  assumes x: "x = of_int m * pow2 e'" and m: "\<bar>m\<bar> < 2 ^ 53" and e': "- 1074 \<le> e'"
    and b: "\<bar>x\<bar> < 2 ^ 1024"
  shows "round_double x = Fin x"
proof (cases "x = 0")
  case True
  then show ?thesis by (simp add: round_double_0)
next
  case False
  define e where "e = max (ilog2 \<bar>x\<bar> - 52) (- 1074)"
  have "\<bar>x\<bar> = of_int \<bar>m\<bar> * pow2 e'"
    using x pow2_pos[of e'] by (simp add: abs_mult)
  also have "\<dots> < 2 ^ 53 * pow2 e'"
    using m pow2_pos[of e'] by (intro mult_strict_right_mono) (simp_all flip: of_int_less_iff)
  also have "\<dots> = pow2 (53 + e')"
    by (simp add: pow2_add pow2_numeral)
  finally have "ilog2 \<bar>x\<bar> < 53 + e'"
    using False by (intro ilog2_less) simp_all
  with e' have le: "e \<le> e'" by (simp add: e_def)
  then have "pow2 e' = of_int (2 ^ nat (e' - e)) * pow2 e"
    using pow2_add[of "e' - e" e] by (simp add: pow2_int)
  then have xe: "x = of_int (m * 2 ^ nat (e' - e)) * pow2 e"
    using x by simp
  then have "x / pow2 e = of_int (m * 2 ^ nat (e' - e))"
    using pow2_pos[of e] by simp
  then have "of_int (round_half_even (x / pow2 e)) * pow2 e = x"
    using xe by (simp only: round_half_even_of_int)
  then show ?thesis
    using b unfolding round_double_def e_def[symmetric] Let_def by (simp add: abs_less_iff)
qed

lemma round_double_of_int: "\<bar>n\<bar> < 2 ^ 53 \<Longrightarrow> round_double (of_int n) = Fin (of_int n)"
proof -
  assume n: "\<bar>n\<bar> < 2 ^ 53"
  then have "\<bar>real_of_int n\<bar> < 2 ^ 53"
    by (metis of_int_abs of_int_less_numeral_power_cancel_iff)
  also have "(2::real) ^ 53 < 2 ^ 1024" by simp
  finally show ?thesis
    using n by (intro round_double_exact[of _ n 0]) (simp_all add: pow2_0)
qed

lemma round_double_integer:
  assumes "x \<in> \<int>" "\<bar>x\<bar> < 2 ^ 53"
  shows "round_double x = Fin x"
proof -
  from assms(1) obtain n where n: "x = of_int n" by (auto elim: Ints_cases)
  with assms(2) have "\<bar>n\<bar> < 2 ^ 53"
    by (metis of_int_abs of_int_less_numeral_power_cancel_iff)
  then show ?thesis unfolding n by (rule round_double_of_int)
qed

lemma round_double_dyadic:
  assumes "x * 2 ^ k \<in> \<int>" "\<bar>x\<bar> * 2 ^ k < 2 ^ 53" "k \<le> 1074" "\<bar>x\<bar> < 2 ^ 1024"
  shows "round_double x = Fin x"
proof -
  from assms(1) obtain m where m: "x * 2 ^ k = of_int m" by (auto elim: Ints_cases)
  then have "\<bar>real_of_int m\<bar> < 2 ^ 53" using assms(2) by (simp flip: m add: abs_mult)
  then have "\<bar>m\<bar> < 2 ^ 53"
    by (metis of_int_abs of_int_less_numeral_power_cancel_iff)
  moreover have "pow2 (- int k) = 1 / 2 ^ k"
    by (simp add: pow2_powr powr_minus_divide powr_realpow)
  then have "x = of_int m * pow2 (- int k)"
    by (simp flip: m)
  ultimately show ?thesis
    using assms(3,4) by (intro round_double_exact[of x m "- int k"]) simp_all
qed

text \<open>Rounding a value below \<open>128\<close> keeps it between two multiples of \<open>2^-46\<close> that bound it.\<close>

lemma round_double_between:
  assumes q: "0 < q" "q < 128"
    and a: "of_int a * pow2 (- 46) \<le> q" and b: "q \<le> of_int b * pow2 (- 46)"
  shows "\<exists>r. round_double q = Fin r \<and> of_int a * pow2 (- 46) \<le> r \<and> r \<le> of_int b * pow2 (- 46)"
proof -
  define e where "e = max (ilog2 \<bar>q\<bar> - 52) (- 1074)"
  define r where "r = of_int (round_half_even (q / pow2 e)) * pow2 e"
  have "q < pow2 7" using q by (simp add: pow2_numeral)
  with q have "ilog2 \<bar>q\<bar> < 7" by (intro ilog2_less) simp_all
  then have le: "e \<le> - 46" by (simp add: e_def)
  have sc: "pow2 (- 46) = of_int (2 ^ nat (- 46 - e)) * pow2 e"
    using pow2_add[of "- 46 - e" e] le by (simp add: pow2_int)
  have "of_int (a * 2 ^ nat (- 46 - e)) \<le> q / pow2 e"
    using a pow2_pos[of e] unfolding sc by (simp add: field_simps)
  then have "a * 2 ^ nat (- 46 - e) \<le> round_half_even (q / pow2 e)"
    by (rule round_half_even_ge)
  then have "real_of_int (a * 2 ^ nat (- 46 - e)) \<le> real_of_int (round_half_even (q / pow2 e))"
    by (simp only: of_int_le_iff)
  then have "of_int (a * 2 ^ nat (- 46 - e)) * pow2 e \<le> r"
    unfolding r_def using pow2_pos[of e] by (intro mult_right_mono) linarith+
  then have lo: "of_int a * pow2 (- 46) \<le> r"
    unfolding sc by (simp add: mult.assoc)
  have "q / pow2 e \<le> of_int (b * 2 ^ nat (- 46 - e))"
    using b pow2_pos[of e] unfolding sc by (simp add: field_simps)
  then have "round_half_even (q / pow2 e) \<le> b * 2 ^ nat (- 46 - e)"
    by (rule round_half_even_le)
  then have "real_of_int (round_half_even (q / pow2 e)) \<le> real_of_int (b * 2 ^ nat (- 46 - e))"
    by (simp only: of_int_le_iff)
  then have "r \<le> of_int (b * 2 ^ nat (- 46 - e)) * pow2 e"
    unfolding r_def using pow2_pos[of e] by (intro mult_right_mono) linarith+
  then have hi: "r \<le> of_int b * pow2 (- 46)"
    unfolding sc by (simp add: mult.assoc)
  have "of_int (0 * 2 ^ nat (- 46 - e)) \<le> q / pow2 e"
    using q pow2_pos[of e] by simp
  then have "0 \<le> round_half_even (q / pow2 e)"
    using round_half_even_ge[of 0 "q / pow2 e"] by simp
  then have r0: "0 \<le> r" unfolding r_def using pow2_pos[of e] by simp
  have "q / pow2 e \<le> of_int (2 ^ 53 * 2 ^ nat (- 46 - e))"
  proof -
    have "q \<le> 2 ^ 53 * pow2 (- 46)" using q by (simp add: pow2_numeral)
    then show ?thesis using pow2_pos[of e] unfolding sc by (simp add: field_simps)
  qed
  then have "round_half_even (q / pow2 e) \<le> 2 ^ 53 * 2 ^ nat (- 46 - e)"
    by (rule round_half_even_le)
  then have "real_of_int (round_half_even (q / pow2 e)) \<le> real_of_int (2 ^ 53 * 2 ^ nat (- 46 - e))"
    by (simp only: of_int_le_iff)
  then have "r \<le> of_int (2 ^ 53 * 2 ^ nat (- 46 - e)) * pow2 e"
    unfolding r_def using pow2_pos[of e] by (intro mult_right_mono) linarith+
  also have "\<dots> = 2 ^ 53 * pow2 (- 46)" unfolding sc by simp
  also have "\<dots> < 2 ^ 1024" by (simp add: pow2_numeral)
  finally have r1: "r < 2 ^ 1024" .
  have "round_double q = Fin r"
    using r0 r1 unfolding round_double_def e_def[symmetric] Let_def r_def[symmetric] by simp
  with lo hi show ?thesis by blast
qed

lemma round_double_numeral [simp]:
  "(numeral n :: real) < 2 ^ 53 \<Longrightarrow> round_double (numeral n) = Fin (numeral n)"
  "(numeral n :: real) < 2 ^ 53 \<Longrightarrow> round_double (- numeral n) = Fin (- numeral n)"
  "round_double 1 = Fin 1"
  "round_double (- 1) = Fin (- 1)"
  by (rule round_double_integer; simp)+

text \<open>The equations that compute \<open>round_double\<close> on a numeral.\<close>

lemmas double_evals = round_double_def round_half_even_def Let_def ilog2.simps pow2_def

lemma ilog2_abs_scaled:
  assumes "x \<noteq> 0"
  shows "\<bar>x\<bar> / pow2 (max (ilog2 \<bar>x\<bar> - 52) (- 1074)) < 2 ^ 53"
proof -
  define e where "e = max (ilog2 \<bar>x\<bar> - 52) (- 1074)"
  from assms have "\<bar>x\<bar> < pow2 (ilog2 \<bar>x\<bar> + 1)" using ilog2_bounds[of "\<bar>x\<bar>"] by simp
  also have "pow2 (ilog2 \<bar>x\<bar> + 1) \<le> pow2 (53 + e)"
    by (intro pow2_mono) (simp add: e_def)
  also have "\<dots> = 2 ^ 53 * pow2 e" by (simp add: pow2_add pow2_numeral)
  finally show ?thesis using pow2_pos[of e] unfolding e_def[symmetric] by (simp add: field_simps)
qed

text \<open>The finite results of rounding are doubles.\<close>

lemma round_double_idem: "round_double x = Fin y \<Longrightarrow> round_double y = Fin y"
proof -
  assume r: "round_double x = Fin y"
  define e where "e = max (ilog2 \<bar>x\<bar> - 52) (- 1074)"
  define m where "m = round_half_even (x / pow2 e)"
  from r have y: "y = of_int m * pow2 e" and b: "\<bar>y\<bar> < 2 ^ 1024"
    unfolding round_double_def Let_def e_def[symmetric] m_def[symmetric]
    by (auto split: if_splits)
  have e: "- 1074 \<le> e" by (simp add: e_def)
  show ?thesis
  proof (cases "x = 0")
    case True
    with r show ?thesis by simp
  next
    case False
    from ilog2_abs_scaled[OF False] have s: "\<bar>x / pow2 e\<bar> < 2 ^ 53"
      using pow2_pos[of e] unfolding e_def[symmetric] by simp
    then have "x / pow2 e \<le> of_int (2 ^ 53)" "of_int (- (2 ^ 53)) \<le> x / pow2 e"
      unfolding abs_less_iff by simp_all
    then have "m \<le> 2 ^ 53" "- (2 ^ 53) \<le> m"
      unfolding m_def by (auto intro: round_half_even_le round_half_even_ge)
    then consider "\<bar>m\<bar> < 2 ^ 53" | "m = 2 ^ 53" | "m = - (2 ^ 53)" by linarith
    then show ?thesis
    proof cases
      case 1
      from round_double_exact[OF y 1 e b] show ?thesis .
    next
      case 2
      then have "y = of_int 1 * pow2 (53 + e)" unfolding y by (simp add: pow2_add pow2_numeral)
      from round_double_exact[OF this _ _ b] e show ?thesis by simp
    next
      case 3
      then have "y = of_int (- 1) * pow2 (53 + e)" unfolding y by (simp add: pow2_add pow2_numeral)
      from round_double_exact[OF this _ _ b] e show ?thesis by simp
    qed
  qed
qed

lemma round_double_is_double: "round_double x = Fin y \<Longrightarrow> is_double y"
  unfolding is_double_def by (rule round_double_idem)

text \<open>
  The double nearest to \<open>0.1\<close>; the sum of the doubles nearest to \<open>0.1\<close> and \<open>0.2\<close>, which is
  \<open>0.30000000000000004\<close>; a tie going to the even neighbour.
\<close>

lemma round_double_examples:
  "round_double (1 / 10) = Fin (3602879701896397 / 36028797018963968)"
  "round_double (3602879701896397 / 36028797018963968 + 3602879701896397 / 18014398509481984) =
     Fin (1351079888211149 / 4503599627370496)"
  "round_double (2 ^ 53 + 1) = Fin (2 ^ 53)"
  "round_double (2 ^ 53 + 3) = Fin (2 ^ 53 + 4)"
  by (simp_all add: double_evals)

subsection \<open>Numbers and the reduction\<close>

lemma or_zero_not_NaN: "or_zero n \<noteq> NaN"
  by (cases n) (auto simp: or_zero_def)

lemma or_zero_idem: "or_zero (or_zero n) = or_zero n"
  by (cases n) (auto simp: or_zero_def)

lemma or_zero_NaN: "or_zero NaN = Fin 0"
  by (simp add: or_zero_def)

lemma foldl_mean_step:
  "foldl (mean_step s2n) acc items =
     \<lparr>acc_weight = foldl js_add (acc_weight acc) (map (\<lambda>it. number_or_zero s2n (weight it)) items),
      acc_sum = foldl js_add (acc_sum acc)
        (map (\<lambda>it. js_mul (number_or_zero s2n (score it)) (number_or_zero s2n (weight it))) items)\<rparr>"
  by (induction items arbitrary: acc) (simp_all add: mean_step_def Let_def)

lemma mean_reduce_sums:
  "mean_reduce s2n items =
     \<lparr>acc_weight = total_weight s2n items, acc_sum = weighted_sum s2n items\<rparr>"
  by (simp add: mean_reduce_def total_weight_def weighted_sum_def foldl_mean_step)

lemma arithmeticMean_sums:
  "arithmeticMean s2n items = or_zero (js_div (weighted_sum s2n items) (total_weight s2n items))"
  by (simp add: arithmeticMean_def Let_def mean_reduce_sums)

lemma arithmeticMean_not_NaN: "arithmeticMean s2n items \<noteq> NaN"
  by (simp add: arithmeticMean_sums or_zero_not_NaN)

lemma js_div_zero:
  "js_div s (Fin 0) =
     (case s of Fin x \<Rightarrow> if x = 0 then NaN else if x < 0 then NegInf else PosInf
      | PosInf \<Rightarrow> PosInf | NegInf \<Rightarrow> NegInf | NaN \<Rightarrow> NaN)"
  by (cases s) simp_all

lemma mean_zero_weight:
  "total_weight s2n items = Fin 0 \<Longrightarrow>
   arithmeticMean s2n items =
     (case weighted_sum s2n items of
        Fin x \<Rightarrow> if x = 0 then Fin 0 else if x < 0 then NegInf else PosInf
      | PosInf \<Rightarrow> PosInf | NegInf \<Rightarrow> NegInf | NaN \<Rightarrow> Fin 0)"
  by (simp add: arithmeticMean_sums js_div_zero or_zero_def split: jsnum.splits)

lemma foldl_add_zero_weights:
  "\<forall>w \<in> set ws. w = Fin 0 \<Longrightarrow> foldl js_add (Fin 0) ws = Fin 0"
  by (induction ws) auto

lemma js_mul_zero: "js_mul a (Fin 0) = Fin 0 \<or> js_mul a (Fin 0) = NaN"
  by (cases a) auto

lemma foldl_add_zero_or_NaN:
  "acc = Fin 0 \<or> acc = NaN \<Longrightarrow> \<forall>p \<in> set ps. p = Fin 0 \<or> p = NaN \<Longrightarrow>
   foldl js_add acc ps = Fin 0 \<or> foldl js_add acc ps = NaN"
proof (induction ps arbitrary: acc)
  case Nil
  then show ?case by simp
next
  case (Cons p ps)
  have "js_add acc p = Fin 0 \<or> js_add acc p = NaN"
    using Cons.prems by auto
  then show ?case using Cons by simp
qed

lemma all_zero_weights:
  assumes "\<forall>it \<in> set items. number_or_zero s2n (weight it) = Fin 0"
  shows "total_weight s2n items = Fin 0"
    and "weighted_sum s2n items = Fin 0 \<or> weighted_sum s2n items = NaN"
proof -
  show "total_weight s2n items = Fin 0"
    unfolding total_weight_def using assms by (intro foldl_add_zero_weights) auto
  show "weighted_sum s2n items = Fin 0 \<or> weighted_sum s2n items = NaN"
    unfolding weighted_sum_def using assms js_mul_zero
    by (intro foldl_add_zero_or_NaN) auto
qed

subsection \<open>The weighted mean at total weight zero\<close>

text \<open>
  Claim C2, as the code has it. When the coerced weight of every item is \<open>0\<close>, the empty
  sequence included, the total weight is \<open>0\<close> and \<open>arithmeticMean\<close> returns \<open>0\<close>, whatever the
  scores are. In general, when the total weight as the reduction sums it in double
  arithmetic is \<open>0\<close>, the division by zero is carried out and only its NaN outcome is
  replaced: the result is \<open>0\<close> when the weighted sum of the reduction is \<open>0\<close> or NaN, and an
  infinity of the sign of that sum otherwise.
\<close>

theorem arithmeticMean_zero_weight:
  "((\<forall>it \<in> set items. number_or_zero s2n (weight it) = Fin 0) \<longrightarrow>
      total_weight s2n items = Fin 0 \<and> arithmeticMean s2n items = Fin 0) \<and>
   (total_weight s2n items = Fin 0 \<longrightarrow>
      arithmeticMean s2n items =
        (case weighted_sum s2n items of
           Fin x \<Rightarrow> if x = 0 then Fin 0 else if x < 0 then NegInf else PosInf
         | PosInf \<Rightarrow> PosInf | NegInf \<Rightarrow> NegInf | NaN \<Rightarrow> Fin 0))"
proof (intro conjI impI)
  assume a: "\<forall>it \<in> set items. number_or_zero s2n (weight it) = Fin 0"
  show w: "total_weight s2n items = Fin 0" by (rule all_zero_weights(1)[OF a])
  from all_zero_weights(2)[OF a] mean_zero_weight[OF w]
  show "arithmeticMean s2n items = Fin 0" by auto
next
  assume "total_weight s2n items = Fin 0"
  then show "arithmeticMean s2n items =
        (case weighted_sum s2n items of
           Fin x \<Rightarrow> if x = 0 then Fin 0 else if x < 0 then NegInf else PosInf
         | PosInf \<Rightarrow> PosInf | NegInf \<Rightarrow> NegInf | NaN \<Rightarrow> Fin 0)"
    by (rule mean_zero_weight)
qed

theorem arithmeticMean_zero_weight_witness:
  "total_weight (\<lambda>_. NaN)
     [\<lparr>score = JNum (Fin 80), weight = JStr ''heavy''\<rparr>, \<lparr>score = JNum PosInf, weight = JNull\<rparr>] = Fin 0 \<and>
   arithmeticMean (\<lambda>_. NaN)
     [\<lparr>score = JNum (Fin 80), weight = JStr ''heavy''\<rparr>, \<lparr>score = JNum PosInf, weight = JNull\<rparr>] = Fin 0 \<and>
   arithmeticMean (\<lambda>_. NaN) [] = Fin 0 \<and>
   total_weight (\<lambda>_. NaN)
     [\<lparr>score = JNum (Fin 100), weight = JNum (Fin 1)\<rparr>,
      \<lparr>score = JNum (Fin 50), weight = JNum (Fin (- 1))\<rparr>] = Fin 0 \<and>
   arithmeticMean (\<lambda>_. NaN)
     [\<lparr>score = JNum (Fin 100), weight = JNum (Fin 1)\<rparr>,
      \<lparr>score = JNum (Fin 50), weight = JNum (Fin (- 1))\<rparr>] = PosInf"
  using arithmeticMean_zero_weight [of "[\<lparr>score = JNum (Fin 80), weight = JStr ''heavy''\<rparr>, \<lparr>score = JNum PosInf, weight = JNull\<rparr>]" "\<lambda>_. NaN"]
    arithmeticMean_zero_weight [of "[]" "\<lambda>_. NaN"]
    arithmeticMean_zero_weight [of "[\<lparr>score = JNum (Fin 100), weight = JNum (Fin 1)\<rparr>,
      \<lparr>score = JNum (Fin 50), weight = JNum (Fin (- 1))\<rparr>]" "\<lambda>_. NaN"]
  by (simp add: total_weight_def weighted_sum_def number_or_zero_def or_zero_def)

text \<open>
  The claim as stated fails for weights that cancel: with weights \<open>1\<close> and \<open>-1\<close> and scores
  \<open>100\<close> and \<open>0\<close> the total weight is \<open>0\<close>, the sum is \<open>100\<close>, and \<open>100 / 0\<close> is \<open>Infinity\<close>,
  which is truthy and is returned.
\<close>

theorem arithmeticMean_cancelling_weights_counterexample:
  "total_weight (\<lambda>_. NaN)
     [\<lparr>score = JNum (Fin 100), weight = JNum (Fin 1)\<rparr>,
      \<lparr>score = JNum (Fin 0), weight = JNum (Fin (- 1))\<rparr>] = Fin 0 \<and>
   arithmeticMean (\<lambda>_. NaN)
     [\<lparr>score = JNum (Fin 100), weight = JNum (Fin 1)\<rparr>,
      \<lparr>score = JNum (Fin 0), weight = JNum (Fin (- 1))\<rparr>] = PosInf"
  by (simp add: arithmeticMean_def mean_reduce_def mean_step_def total_weight_def
      number_or_zero_def or_zero_def)

text \<open>
  Weights that cancel as reals need not cancel as doubles. For the doubles nearest to
  \<open>0.1\<close>, \<open>0.2\<close>, \<open>-0.1\<close> and \<open>-0.2\<close> the reduction sums the weights to \<open>2^-55\<close>, not to \<open>0\<close>, and
  with the scores \<open>100\<close>, \<open>50\<close>, \<open>0\<close> and \<open>0\<close> the mean is \<open>20 / 2^-55\<close>, about \<open>7.2e17\<close>.
\<close>

lemma arithmeticMean_doubles_not_cancelling:
  "total_weight sample_s2n
     [\<lparr>score = JNum (Fin 100), weight = JNum (Fin double_tenth)\<rparr>,
      \<lparr>score = JNum (Fin 50), weight = JNum (Fin (2 * double_tenth))\<rparr>,
      \<lparr>score = JNum (Fin 0), weight = JNum (Fin (- double_tenth))\<rparr>,
      \<lparr>score = JNum (Fin 0), weight = JNum (Fin (- (2 * double_tenth)))\<rparr>] =
     Fin (1 / 2 ^ 55) \<and>
   arithmeticMean sample_s2n
     [\<lparr>score = JNum (Fin 100), weight = JNum (Fin double_tenth)\<rparr>,
      \<lparr>score = JNum (Fin 50), weight = JNum (Fin (2 * double_tenth))\<rparr>,
      \<lparr>score = JNum (Fin 0), weight = JNum (Fin (- double_tenth))\<rparr>,
      \<lparr>score = JNum (Fin 0), weight = JNum (Fin (- (2 * double_tenth)))\<rparr>] =
     Fin 720575940379279360"
  by (simp add: total_weight_def arithmeticMean_def mean_reduce_def mean_step_def
      number_or_zero_def or_zero_def double_tenth_def double_evals)

subsection \<open>Fields that are not numbers\<close>

lemma number_or_zero_idem:
  "number_or_zero s2n (JNum (number_or_zero s2n v)) = number_or_zero s2n v"
  by (simp add: number_or_zero_def or_zero_idem)

lemma arithmeticMean_coerced:
  "arithmeticMean s2n (map (coerced s2n) items) = arithmeticMean s2n items"
  by (simp add: arithmeticMean_sums total_weight_def weighted_sum_def coerced_def
      number_or_zero_idem comp_def)

text \<open>
  Claim C5, as the code has it. A score or weight that is NaN as a number (undefined, NaN,
  a string that is no number) counts as \<open>0\<close>, and so does null; an infinite value is kept
  as it is. The mean of the items is the mean of the items with every field so replaced,
  and it is never NaN. No step of \<open>arithmeticMean\<close> can throw on such fields: the model has
  no error result for it.
\<close>

theorem arithmeticMean_coercion:
  "(ToNumber s2n v = NaN \<or> v = JNull \<longrightarrow> number_or_zero s2n v = Fin 0) \<and>
   number_or_zero s2n (JNum PosInf) = PosInf \<and>
   number_or_zero s2n (JNum NegInf) = NegInf \<and>
   arithmeticMean s2n (map (coerced s2n) items) = arithmeticMean s2n items \<and>
   arithmeticMean s2n items \<noteq> NaN"
  by (auto simp: number_or_zero_def or_zero_def arithmeticMean_coerced arithmeticMean_not_NaN)

theorem arithmeticMean_coercion_witness:
  "number_or_zero (\<lambda>_. NaN) JUndefined = Fin 0 \<and>
   number_or_zero (\<lambda>_. NaN) (JStr ''n/a'') = Fin 0 \<and>
   number_or_zero (\<lambda>_. NaN) (JNum NaN) = Fin 0 \<and>
   number_or_zero (\<lambda>_. NaN) JNull = Fin 0 \<and>
   arithmeticMean (\<lambda>_. NaN)
     [\<lparr>score = JStr ''n/a'', weight = JNum (Fin 1)\<rparr>, \<lparr>score = JNum (Fin 100), weight = JNum (Fin 1)\<rparr>,
      \<lparr>score = JNum (Fin 70), weight = JUndefined\<rparr>] = Fin 50"
  using arithmeticMean_coercion [of "\<lambda>_. NaN" JUndefined "[]"]
    arithmeticMean_coercion [of "\<lambda>_. NaN" "JStr ''n/a''" "[]"]
    arithmeticMean_coercion [of "\<lambda>_. NaN" "JNum NaN" "[]"]
    arithmeticMean_coercion [of "\<lambda>_. NaN" JNull
      "[\<lparr>score = JStr ''n/a'', weight = JNum (Fin 1)\<rparr>, \<lparr>score = JNum (Fin 100), weight = JNum (Fin 1)\<rparr>,
      \<lparr>score = JNum (Fin 70), weight = JUndefined\<rparr>]"]
  by (simp add: coerced_def arithmeticMean_def mean_reduce_def mean_step_def number_or_zero_def or_zero_def)

text \<open>
  The claim as stated fails for an infinite value: \<open>Number(Infinity) || 0\<close> is \<open>Infinity\<close>,
  and the mean of one item of score \<open>Infinity\<close> and weight \<open>1\<close> is \<open>Infinity\<close>.
\<close>

theorem arithmeticMean_infinite_score_counterexample:
  "number_or_zero (\<lambda>_. NaN) (JNum PosInf) \<noteq> Fin 0 \<and>
   arithmeticMean (\<lambda>_. NaN) [\<lparr>score = JNum PosInf, weight = JNum (Fin 1)\<rparr>] = PosInf"
  by (simp add: arithmeticMean_def mean_reduce_def mean_step_def number_or_zero_def or_zero_def)

subsection \<open>The weighted mean of items in range\<close>

lemma integral_Ints: "integral x \<longleftrightarrow> x \<in> \<int>"
  by (auto simp: integral_def Ints_def)

lemma sum_list_Ints:
  fixes xs :: "real list"
  shows "\<forall>x \<in> set xs. x \<in> \<int> \<Longrightarrow> sum_list xs \<in> \<int>"
  by (induction xs) auto

lemma in_range_Fin:
  "in_range s2n it \<Longrightarrow>
   number_or_zero s2n (score it) = Fin (fst (item_pair s2n it)) \<and>
   number_or_zero s2n (weight it) = Fin (snd (item_pair s2n it)) \<and>
   fst (item_pair s2n it) \<in> \<int> \<and> 0 \<le> fst (item_pair s2n it) \<and>
   fst (item_pair s2n it) \<le> 100 \<and>
   snd (item_pair s2n it) \<in> \<int> \<and> 0 \<le> snd (item_pair s2n it)"
  by (auto simp: in_range_def item_pair_def integral_Ints split: jsnum.splits)

lemma foldl_add_exact:
  "\<forall>x \<in> set xs. x \<in> \<int> \<and> 0 \<le> x \<Longrightarrow> a \<in> \<int> \<Longrightarrow> 0 \<le> a \<Longrightarrow> a + sum_list xs < 2 ^ 53 \<Longrightarrow>
   foldl js_add (Fin a) (map Fin xs) = Fin (a + sum_list xs)"
proof (induction xs arbitrary: a)
  case Nil
  then show ?case by simp
next
  case (Cons x xs)
  have nn: "0 \<le> sum_list xs" using Cons.prems(1) by (intro sum_list_nonneg) simp
  have "round_double (a + x) = Fin (a + x)"
    using Cons.prems nn by (intro round_double_integer) auto
  moreover have "foldl js_add (Fin (a + x)) (map Fin xs) = Fin (a + x + sum_list xs)"
    using Cons.prems by (intro Cons.IH) (auto simp: add.assoc)
  ultimately show ?case by (simp add: add.assoc)
qed

lemma member_le_sum:
  fixes xs :: "real list"
  shows "\<forall>y \<in> set xs. 0 \<le> y \<Longrightarrow> x \<in> set xs \<Longrightarrow> x \<le> sum_list xs"
proof (induction xs)
  case Nil
  then show ?case by simp
next
  case (Cons y ys)
  have "0 \<le> sum_list ys" using Cons.prems(1) by (intro sum_list_nonneg) simp
  with Cons show ?case by auto
qed

lemma sum_bounds:
  fixes ps :: "(real \<times> real) list"
  assumes "\<forall>(s, w) \<in> set ps. 0 \<le> s \<and> s \<le> 100 \<and> 0 \<le> w"
  shows "0 \<le> sum_list (map snd ps)"
    and "0 \<le> sum_list (map (\<lambda>(s, w). s * w) ps)"
    and "sum_list (map (\<lambda>(s, w). s * w) ps) \<le> 100 * sum_list (map snd ps)"
  using assms
proof (induction ps)
  case Nil
  {
    case 1 show ?case by simp
  next
    case 2 show ?case by simp
  next
    case 3 show ?case by simp
  }
next
  case (Cons p ps)
  {
    case 1
    then show ?case using Cons.IH(1) by (cases p) auto
  next
    case 2
    then show ?case using Cons.IH(2) by (cases p) auto
  next
    case 3
    obtain s w where p: "p = (s, w)" by (cases p)
    from 3 p have "s * w \<le> 100 * w" "0 \<le> w" by (auto intro: mult_right_mono)
    moreover have "sum_list (map (\<lambda>(s, w). s * w) ps) \<le> 100 * sum_list (map snd ps)"
      using Cons.IH(3) 3 by simp
    ultimately show ?case using p by (simp add: algebra_simps)
  }
qed

lemma weighted_mean_bounds:
  fixes ps :: "(real \<times> real) list"
  assumes "\<forall>(s, w) \<in> set ps. 0 \<le> s \<and> s \<le> 100 \<and> 0 \<le> w"
  shows "0 \<le> weighted_mean ps \<and> weighted_mean ps \<le> 100"
proof (cases "sum_list (map snd ps) = 0")
  case True
  then show ?thesis by (simp add: weighted_mean_def)
next
  case False
  with sum_bounds(1)[OF assms] have pos: "0 < sum_list (map snd ps)" by simp
  show ?thesis
    using False pos sum_bounds(2,3)[OF assms]
    by (simp add: weighted_mean_def Let_def pos_divide_le_eq)
qed

lemma in_range_sums:
  assumes "all_in_range s2n items"
  shows "total_weight s2n items = Fin (sum_list (map snd (map (item_pair s2n) items)))"
    and "weighted_sum s2n items = Fin (sum_list (map (\<lambda>(s, w). s * w) (map (item_pair s2n) items)))"
    and "\<forall>(s, w) \<in> set (map (item_pair s2n) items). 0 \<le> s \<and> s \<le> 100 \<and> 0 \<le> w"
    and "sum_list (map snd (map (item_pair s2n) items)) \<in> \<int>"
    and "sum_list (map (\<lambda>(s, w). s * w) (map (item_pair s2n) items)) \<in> \<int>"
    and "sum_list (map snd (map (item_pair s2n) items)) \<le> 2 ^ 45"
proof -
  let ?ps = "map (item_pair s2n) items"
  let ?W = "sum_list (map snd ?ps)"
  let ?S = "sum_list (map (\<lambda>(s, w). s * w) ?ps)"
  from assms have ir: "\<forall>it \<in> set items. in_range s2n it"
    and W: "?W \<le> 2 ^ 45"
    by (simp_all add: all_in_range_def list_all_iff item_pair_def comp_def)
  show "?W \<le> 2 ^ 45" by (rule W)
  show r: "\<forall>(s, w) \<in> set ?ps. 0 \<le> s \<and> s \<le> 100 \<and> 0 \<le> w"
    using ir in_range_Fin[of s2n] by (auto simp: case_prod_unfold)
  have wi: "\<forall>w \<in> set (map snd ?ps). w \<in> \<int> \<and> 0 \<le> w"
    using ir in_range_Fin[of s2n] by auto
  have pi: "\<forall>p \<in> set (map (\<lambda>(s, w). s * w) ?ps). p \<in> \<int> \<and> 0 \<le> p"
    using ir in_range_Fin[of s2n] by (auto simp: case_prod_unfold)
  show "?W \<in> \<int>" using wi by (intro sum_list_Ints) auto
  show "?S \<in> \<int>" using pi by (intro sum_list_Ints) auto
  have SW: "?S \<le> 100 * ?W" by (rule sum_bounds(3)[OF r])
  have w: "map (\<lambda>it. number_or_zero s2n (weight it)) items = map Fin (map snd ?ps)"
    using ir by (simp add: in_range_Fin)
  have s: "map (\<lambda>it. js_mul (number_or_zero s2n (score it)) (number_or_zero s2n (weight it))) items =
      map Fin (map (\<lambda>(s, w). s * w) ?ps)"
  proof -
    have "js_mul (number_or_zero s2n (score it)) (number_or_zero s2n (weight it)) =
        Fin (fst (item_pair s2n it) * snd (item_pair s2n it))" if "it \<in> set items" for it
    proof -
      from that ir have i: "in_range s2n it" by simp
      note f = in_range_Fin[OF i]
      have "snd (item_pair s2n it) \<le> ?W"
        using wi that by (intro member_le_sum) auto
      with W have "snd (item_pair s2n it) \<le> 2 ^ 45" by linarith
      moreover have "fst (item_pair s2n it) * snd (item_pair s2n it) \<le> 100 * snd (item_pair s2n it)"
        using f by (intro mult_right_mono) simp_all
      moreover have "0 \<le> fst (item_pair s2n it) * snd (item_pair s2n it)"
        using f by simp
      ultimately have "\<bar>fst (item_pair s2n it) * snd (item_pair s2n it)\<bar> < 2 ^ 53"
        by simp
      moreover have "fst (item_pair s2n it) * snd (item_pair s2n it) \<in> \<int>"
        using f by simp
      ultimately have "round_double (fst (item_pair s2n it) * snd (item_pair s2n it)) =
          Fin (fst (item_pair s2n it) * snd (item_pair s2n it))"
        by (intro round_double_integer)
      then show ?thesis using f by simp
    qed
    then show ?thesis by (simp add: case_prod_unfold)
  qed
  have "foldl js_add (Fin 0) (map Fin (map snd ?ps)) = Fin (0 + ?W)"
    using wi W by (intro foldl_add_exact) auto
  then show "total_weight s2n items = Fin ?W"
    unfolding total_weight_def w by simp
  have "foldl js_add (Fin 0) (map Fin (map (\<lambda>(s, w). s * w) ?ps)) = Fin (0 + ?S)"
    using pi SW W by (intro foldl_add_exact) auto
  then show "weighted_sum s2n items = Fin ?S"
    unfolding weighted_sum_def s by simp
qed

lemma round_quotient:
  assumes "S \<in> \<int>" "W \<in> \<int>" "0 \<le> S" "S \<le> 100 * W" "0 < W" "W \<le> 2 ^ 45"
  shows "\<exists>r. round_double (S / W) = Fin r \<and> \<lfloor>r + 1 / 2\<rfloor> = \<lfloor>S / W + 1 / 2\<rfloor>"
proof (cases "S = 0")
  case True
  then show ?thesis by simp
next
  case False
  define q where "q = S / W"
  define k where "k = \<lfloor>q + 1 / 2\<rfloor>"
  from assms False have q: "0 < q" "q \<le> 100" by (simp_all add: q_def pos_divide_le_eq)
  have k: "of_int k \<le> q + 1 / 2" "q + 1 / 2 < of_int k + 1" unfolding k_def by linarith+
  from assms(1) obtain s' where s': "S = of_int s'" by (rule Ints_cases)
  from assms(2) obtain w' where w': "W = of_int w'" by (rule Ints_cases)
  note sw = s' w'
  have "2 * S < (2 * of_int k + 1) * W"
    using k(2) assms(5) by (simp add: q_def field_simps)
  then have "2 * s' < (2 * k + 1) * w'"
    unfolding sw by (metis (mono_tags, opaque_lifting) of_int_1 of_int_add of_int_less_iff of_int_mult of_int_numeral)
  then have "2 * s' + 1 \<le> (2 * k + 1) * w'" by simp
  then have "2 * S + 1 \<le> (2 * of_int k + 1) * W"
    unfolding sw by (metis (mono_tags, opaque_lifting) of_int_1 of_int_add of_int_le_iff of_int_mult of_int_numeral)
  then have "q \<le> of_int k + 1 / 2 - 1 / (2 * W)"
    using assms(5) by (simp add: q_def field_simps)
  moreover have "1 / 2 ^ 46 \<le> 1 / (2 * W)"
    using assms(5,6) by (intro divide_left_mono) simp_all
  ultimately have up: "q \<le> of_int k + 1 / 2 - 1 / 2 ^ 46" by linarith
  have a: "of_int ((2 * k - 1) * 2 ^ 45) * pow2 (- 46) \<le> q"
    using k(1) by (simp add: pow2_numeral)
  have b: "q \<le> of_int ((2 * k + 1) * 2 ^ 45 - 1) * pow2 (- 46)"
    using up by (simp add: pow2_numeral field_simps)
  from q have "q < 128" by simp
  from round_double_between[OF q(1) this a b]
  obtain r where r: "round_double q = Fin r"
    "of_int ((2 * k - 1) * 2 ^ 45) * pow2 (- 46) \<le> r"
    "r \<le> of_int ((2 * k + 1) * 2 ^ 45 - 1) * pow2 (- 46)"
    by blast
  from r(2) have "of_int k \<le> r + 1 / 2" by (simp add: pow2_numeral)
  moreover from r(3) have "r + 1 / 2 < of_int k + 1" by (simp add: pow2_numeral field_simps)
  ultimately have "\<lfloor>r + 1 / 2\<rfloor> = k" by linarith
  with r(1) show ?thesis unfolding q_def[symmetric] k_def by blast
qed

lemma arithmeticMean_in_range:
  assumes "all_in_range s2n items"
  shows "arithmeticMean s2n items = round_double (weighted_mean (map (item_pair s2n) items))"
    and "Math_round (arithmeticMean s2n items) =
      Fin (of_int \<lfloor>weighted_mean (map (item_pair s2n) items) + 1 / 2\<rfloor>)"
    and "0 \<le> \<lfloor>weighted_mean (map (item_pair s2n) items) + 1 / 2\<rfloor>"
    and "\<lfloor>weighted_mean (map (item_pair s2n) items) + 1 / 2\<rfloor> \<le> 100"
proof -
  let ?ps = "map (item_pair s2n) items"
  let ?W = "sum_list (map snd ?ps)"
  let ?S = "sum_list (map (\<lambda>(s, w). s * w) ?ps)"
  note s = in_range_sums[OF assms]
  from weighted_mean_bounds[OF s(3)]
  show "0 \<le> \<lfloor>weighted_mean ?ps + 1 / 2\<rfloor>" "\<lfloor>weighted_mean ?ps + 1 / 2\<rfloor> \<le> 100"
    by linarith+
  have m: "arithmeticMean s2n items = or_zero (js_div (Fin ?S) (Fin ?W))"
    unfolding arithmeticMean_sums s(1,2) ..
  have "arithmeticMean s2n items = round_double (weighted_mean ?ps) \<and>
      Math_round (arithmeticMean s2n items) = Fin (of_int \<lfloor>weighted_mean ?ps + 1 / 2\<rfloor>)"
  proof (cases "?W = 0")
    case True
    with sum_bounds(2,3)[OF s(3)] have "?S = 0" by simp
    with True show ?thesis
      unfolding m by (simp add: weighted_mean_def or_zero_def)
  next
    case False
    with sum_bounds(1)[OF s(3)] have pos: "0 < ?W" by simp
    have wm: "weighted_mean ?ps = ?S / ?W" using False by (simp add: weighted_mean_def)
    from round_quotient[OF s(5) s(4) sum_bounds(2)[OF s(3)] sum_bounds(3)[OF s(3)] pos s(6)]
    obtain r where r: "round_double (?S / ?W) = Fin r" "\<lfloor>r + 1 / 2\<rfloor> = \<lfloor>?S / ?W + 1 / 2\<rfloor>"
      by blast
    have "or_zero (Fin r) = Fin r" by (simp add: or_zero_def)
    with r False show ?thesis unfolding m wm by simp
  qed
  then show "arithmeticMean s2n items = round_double (weighted_mean ?ps)"
    "Math_round (arithmeticMean s2n items) = Fin (of_int \<lfloor>weighted_mean ?ps + 1 / 2\<rfloor>)"
    by blast+
qed

lemma Math_round_cases:
  "n \<noteq> NaN \<Longrightarrow> Math_round n = PosInf \<or> Math_round n = NegInf \<or> (\<exists>k. Math_round n = Fin (of_int k))"
  by (cases n) auto

subsection \<open>generateReportJson\<close>

lemma map_throwing_Inr:
  "map_throwing f xs = Inr ys \<Longrightarrow> list_all2 (\<lambda>x y. f x = Inr y) xs ys"
  by (induction xs arbitrary: ys) (auto split: sum.splits)

lemma map_throwing_total:
  "\<forall>x \<in> set xs. \<exists>y. f x = Inr y \<Longrightarrow> \<exists>ys. map_throwing f xs = Inr ys"
  by (induction xs) auto

lemma score_audit_def_of:
  "score_audit s2n rs audit = Inr a \<Longrightarrow> audit_def_of a = audit"
  by (auto simp: score_audit_def audit_def_of_def split: option.splits)

lemma score_audits_def_of:
  "map_throwing (score_audit s2n rs) audits = Inr as \<Longrightarrow> map audit_def_of as = audits"
proof -
  assume "map_throwing (score_audit s2n rs) audits = Inr as"
  then have "list_all2 (\<lambda>x y. score_audit s2n rs x = Inr y) audits as"
    by (rule map_throwing_Inr)
  then show ?thesis
    by (induction rule: list_all2_induct) (auto dest: score_audit_def_of)
qed

lemma score_category_def_of:
  "score_category s2n config rs categoryId = Inr c \<Longrightarrow>
   map_of config categoryId = Some (category_def_of c)"
  by (auto simp: score_category_def category_def_of_def Let_def
      dest: score_audits_def_of split: sum.splits option.splits)

lemma score_category_score:
  "score_category s2n config rs categoryId = Inr c \<Longrightarrow>
   c_score c = Math_round (arithmeticMean s2n (map audit_item (c_audits c)))"
  by (auto simp: score_category_def Let_def split: sum.splits option.splits)

lemma score_categories_def_of:
  "map_throwing (score_category s2n config rs) ks = Inr cats \<Longrightarrow>
   map (map_of config) ks = map (\<lambda>c. Some (category_def_of c)) cats"
proof -
  assume "map_throwing (score_category s2n config rs) ks = Inr cats"
  then have "list_all2 (\<lambda>x y. score_category s2n config rs x = Inr y) ks cats"
    by (rule map_throwing_Inr)
  then show ?thesis
    by (induction rule: list_all2_induct) (auto dest: score_category_def_of)
qed

lemma map_of_keys:
  "distinct (map fst obj) \<Longrightarrow> map (map_of obj) (map fst obj) = map (\<lambda>(k, v). Some v) obj"
  by (induction obj) (auto simp: rev_image_eqI)

lemma score_categories_score:
  assumes "map_throwing (score_category s2n config rs) ks = Inr cats" "c \<in> set cats"
  shows "c_score c = Math_round (arithmeticMean s2n (map audit_item (c_audits c)))"
proof -
  from assms(1) have "list_all2 (\<lambda>x y. score_category s2n config rs x = Inr y) ks cats"
    by (rule map_throwing_Inr)
  with assms(2) obtain x where "score_category s2n config rs x = Inr c"
    by (auto simp: list_all2_conv_all_nth in_set_conv_nth)
  then show ?thesis by (rule score_category_score)
qed

lemma generateReportJson_Inr:
  "generateReportJson s2n config rs = Inr out \<Longrightarrow>
   map_throwing (score_category s2n config rs) (map fst config) = Inr (categories out) \<and>
   overall_score out = arithmeticMean s2n (map category_item (categories out))"
  by (auto simp: generateReportJson_def Object_keys_def Let_def split: sum.splits)

lemmas eval_defs = generateReportJson_def Object_keys_def score_category_def score_audit_def arithmeticMean_def
  mean_reduce_def mean_step_def number_or_zero_def or_zero_def auditScore_def audit_item_def
  category_item_def Let_def sample_s2n_def sample_result_def

lemma score_audit_Inr:
  "score_audit s2n rs audit = Inr a \<Longrightarrow>
   a_id a = audit_id audit \<and> map_of rs (audit_id audit) = Some (a_result a) \<and>
   a_score a = auditScore s2n (result_score (a_result a))"
  by (auto simp: score_audit_def split: option.splits)

lemma score_audits_Inr:
  "map_throwing (score_audit s2n rs) audits = Inr as \<Longrightarrow>
   list_all2 (\<lambda>audit a. a_id a = audit_id audit \<and> map_of rs (audit_id audit) = Some (a_result a) \<and>
      a_score a = auditScore s2n (result_score (a_result a))) audits as"
  by (drule map_throwing_Inr) (auto elim!: list_all2_mono dest: score_audit_Inr)

lemma score_category_Inr:
  "score_category s2n config rs categoryId = Inr c \<Longrightarrow>
   \<exists>category. map_of config categoryId = Some category \<and>
     list_all2 (\<lambda>audit a. a_id a = audit_id audit \<and> map_of rs (audit_id audit) = Some (a_result a) \<and>
        a_score a = auditScore s2n (result_score (a_result a))) (cat_audits category) (c_audits c)"
  by (auto simp: score_category_def Let_def dest: score_audits_Inr split: option.splits sum.splits)

lemma score_categories_Inr:
  "map_throwing (score_category s2n config rs) ks = Inr cats \<Longrightarrow>
   list_all2 (\<lambda>categoryId c. \<exists>category. map_of config categoryId = Some category \<and>
     list_all2 (\<lambda>audit a. a_id a = audit_id audit \<and> map_of rs (audit_id audit) = Some (a_result a) \<and>
        a_score a = auditScore s2n (result_score (a_result a))) (cat_audits category) (c_audits c))
     ks cats"
  by (drule map_throwing_Inr) (auto elim!: list_all2_mono dest: score_category_Inr)

text \<open>
  Claim C7. The normalised score of a result is \<open>100\<close> for the boolean true and \<open>0\<close> for the
  boolean false; for a score that is no boolean and is a finite number other than zero
  when coerced, it is that number; it is \<open>0\<close> for an absent score, null, NaN and a string
  that is no number. When \<open>generateReportJson\<close> returns, its output has one category for
  every key of the configuration and in it one audit for every audit of that category's
  list, in order, and every such audit carries the result found under its id and that
  result's normalised score.
\<close>

theorem auditScore_cases:
  "auditScore s2n (JBool True) = Fin 100 \<and>
   auditScore s2n (JBool False) = Fin 0 \<and>
   ((\<forall>b. v \<noteq> JBool b) \<longrightarrow> ToNumber s2n v = Fin x \<longrightarrow> x \<noteq> 0 \<longrightarrow> auditScore s2n v = Fin x) \<and>
   auditScore s2n JUndefined = Fin 0 \<and>
   auditScore s2n JNull = Fin 0 \<and>
   auditScore s2n (JNum NaN) = Fin 0 \<and>
   (s2n s = NaN \<longrightarrow> auditScore s2n (JStr s) = Fin 0) \<and>
   (generateReportJson s2n config resultsByAuditId = Inr out \<longrightarrow>
      list_all2
        (\<lambda>categoryId c. \<exists>category. map_of config categoryId = Some category \<and>
           list_all2
             (\<lambda>audit a. a_id a = audit_id audit \<and>
                map_of resultsByAuditId (audit_id audit) = Some (a_result a) \<and>
                a_score a = auditScore s2n (result_score (a_result a)))
             (cat_audits category) (c_audits c))
        (Object_keys config) (categories out))"
proof -
  have "generateReportJson s2n config resultsByAuditId = Inr out \<longrightarrow>
      list_all2
        (\<lambda>categoryId c. \<exists>category. map_of config categoryId = Some category \<and>
           list_all2
             (\<lambda>audit a. a_id a = audit_id audit \<and>
                map_of resultsByAuditId (audit_id audit) = Some (a_result a) \<and>
                a_score a = auditScore s2n (result_score (a_result a)))
             (cat_audits category) (c_audits c))
        (Object_keys config) (categories out)"
    using generateReportJson_Inr[of s2n config resultsByAuditId out]
    by (auto simp: Object_keys_def dest: score_categories_Inr)
  moreover have "(\<forall>b. v \<noteq> JBool b) \<longrightarrow> ToNumber s2n v = Fin x \<longrightarrow> x \<noteq> 0 \<longrightarrow> auditScore s2n v = Fin x"
    by (cases v) (auto simp: auditScore_def number_or_zero_def or_zero_def)
  ultimately show ?thesis
    by (simp add: auditScore_def number_or_zero_def or_zero_def)
qed

theorem auditScore_cases_witness:
  "auditScore (\<lambda>s. if s = ''87.5'' then Fin (175 / 2) else NaN) (JNum (Fin 42)) = Fin 42 \<and>
   auditScore (\<lambda>s. if s = ''87.5'' then Fin (175 / 2) else NaN) (JStr ''87.5'') = Fin (175 / 2) \<and>
   auditScore (\<lambda>s. if s = ''87.5'' then Fin (175 / 2) else NaN) (JStr ''n/a'') = Fin 0 \<and>
   (\<exists>out. generateReportJson sample_s2n malformed_config malformed_results = Inr out \<and>
      map (\<lambda>c. map (\<lambda>a. (a_id a, result_score (a_result a), a_score a)) (c_audits c)) (categories out) =
        [[(''A'', JUndefined, Fin 0), (''B'', JNull, Fin 0), (''C'', JBool False, Fin 0),
          (''D'', JStr ''n/a'', Fin 0)]]) \<and>
   (\<exists>out. generateReportJson sample_s2n sample_config sample_results = Inr out \<and>
      map (\<lambda>c. map (\<lambda>a. (a_id a, result_score (a_result a), a_score a)) (c_audits c)) (categories out) =
        [[(''A'', JNum (Fin 50), Fin 50), (''B'', JStr ''90'', Fin 90)],
         [(''C'', JBool True, Fin 100), (''D'', JNum (Fin 2), Fin 2), (''E'', JNum (Fin 7), Fin 7)]] \<and>
      list_all2
        (\<lambda>categoryId c. \<exists>category. map_of sample_config categoryId = Some category \<and>
           list_all2
             (\<lambda>audit a. a_id a = audit_id audit \<and>
                map_of sample_results (audit_id audit) = Some (a_result a) \<and>
                a_score a = auditScore sample_s2n (result_score (a_result a)))
             (cat_audits category) (c_audits c))
        (Object_keys sample_config) (categories out))"
proof -
  let ?s2n = "\<lambda>s. if s = ''87.5'' then Fin (175 / 2) else NaN"
  obtain out where g: "generateReportJson sample_s2n sample_config sample_results = Inr out"
    by (simp add: eval_defs sample_config_def sample_results_def)
  have v: "map (\<lambda>c. map (\<lambda>a. (a_id a, result_score (a_result a), a_score a)) (c_audits c)) (categories out) =
        [[(''A'', JNum (Fin 50), Fin 50), (''B'', JStr ''90'', Fin 90)],
         [(''C'', JBool True, Fin 100), (''D'', JNum (Fin 2), Fin 2), (''E'', JNum (Fin 7), Fin 7)]]"
    using g by (auto simp: eval_defs sample_config_def sample_results_def)
  have m: "\<exists>out. generateReportJson sample_s2n malformed_config malformed_results = Inr out \<and>
      map (\<lambda>c. map (\<lambda>a. (a_id a, result_score (a_result a), a_score a)) (c_audits c)) (categories out) =
        [[(''A'', JUndefined, Fin 0), (''B'', JNull, Fin 0), (''C'', JBool False, Fin 0),
          (''D'', JStr ''n/a'', Fin 0)]]"
    by (simp add: eval_defs malformed_config_def malformed_results_def)
  from auditScore_cases [of ?s2n "JNum (Fin 42)" 42 "''n/a''" "[]" "[]" undefined]
    auditScore_cases [of ?s2n "JStr ''87.5''" "175 / 2" "''n/a''" "[]" "[]" undefined]
    auditScore_cases [of sample_s2n JNull 1 "''n/a''" sample_config sample_results out] g v m
  show ?thesis by auto
qed

text \<open>
  Claim C8. When every audit id listed in the configuration has an entry in the results
  mapping, \<open>generateReportJson\<close> does not throw: it returns a report, whatever the scores
  of the results and the weights of the configuration are.
\<close>

theorem generateReportJson_total:
  assumes "\<forall>(categoryId, category) \<in> set config.
             \<forall>audit \<in> set (cat_audits category). audit_id audit \<in> fst ` set rs"
  shows "\<exists>out. generateReportJson s2n config rs = Inr out"
proof -
  have a: "\<exists>a. score_audit s2n rs audit = Inr a" if "audit_id audit \<in> fst ` set rs" for audit
  proof -
    from that have "map_of rs (audit_id audit) \<noteq> None"
      by (simp add: map_of_eq_None_iff)
    then show ?thesis by (auto simp: score_audit_def)
  qed
  have c: "\<exists>c. score_category s2n config rs categoryId = Inr c"
    if "categoryId \<in> set (map fst config)" for categoryId
  proof -
    from that obtain category where m: "map_of config categoryId = Some category"
      by (cases "map_of config categoryId") (auto simp: map_of_eq_None_iff)
    then have "(categoryId, category) \<in> set config" by (rule map_of_SomeD)
    with assms have "\<forall>audit \<in> set (cat_audits category). audit_id audit \<in> fst ` set rs"
      by blast
    with a have "\<exists>as. map_throwing (score_audit s2n rs) (cat_audits category) = Inr as"
      by (intro map_throwing_total) blast
    with m show ?thesis by (auto simp: score_category_def Let_def)
  qed
  then have "\<exists>cats. map_throwing (score_category s2n config rs) (map fst config) = Inr cats"
    by (intro map_throwing_total) blast
  then show ?thesis by (auto simp: generateReportJson_def Object_keys_def Let_def)
qed

theorem generateReportJson_total_witness:
  "\<exists>out. generateReportJson sample_s2n malformed_config malformed_results = Inr out"
proof -
  have "\<forall>(categoryId, category) \<in> set malformed_config.
          \<forall>audit \<in> set (cat_audits category). audit_id audit \<in> fst ` set malformed_results"
    by (simp add: malformed_config_def malformed_results_def)
  then show ?thesis by (rule generateReportJson_total)
qed

text \<open>
  Claim C6. For a configuration object, whose keys are distinct, the categories of the
  report are made from the categories of the configuration in the configuration's order,
  one for one, and the audits of each category from its audit list in that list's order.
  Two results mappings that hold the same value for every key give the same report,
  whatever the order of their entries.
\<close>

theorem generateReportJson_order:
  "(distinct (map fst config) \<longrightarrow> generateReportJson s2n config rs = Inr out \<longrightarrow>
      map category_def_of (categories out) = map snd config \<and>
      map (\<lambda>c. map a_id (c_audits c)) (categories out) =
        map (\<lambda>(categoryId, category). map audit_id (cat_audits category)) config) \<and>
   (map_of rs = map_of rs' \<longrightarrow>
      generateReportJson s2n config rs = generateReportJson s2n config rs')"
proof (intro conjI impI)
  assume k: "distinct (map fst config)"
    and g: "generateReportJson s2n config rs = Inr out"
  from generateReportJson_Inr[OF g]
  have "map (map_of config) (map fst config) =
      map (\<lambda>c. Some (category_def_of c)) (categories out)"
    by (auto dest: score_categories_def_of)
  then have "map (\<lambda>c. Some (category_def_of c)) (categories out) = map (\<lambda>(k, v). Some v) config"
    unfolding map_of_keys[OF k] by simp
  then have "map Some (map category_def_of (categories out)) = map Some (map snd config)"
    by (simp add: comp_def case_prod_unfold)
  then show d: "map category_def_of (categories out) = map snd config"
    by (rule map_injective) simp
  have "map (\<lambda>c. map a_id (c_audits c)) (categories out) =
      map (\<lambda>category. map audit_id (cat_audits category)) (map category_def_of (categories out))"
    by (simp add: category_def_of_def audit_def_of_def comp_def)
  also have "\<dots> = map (\<lambda>(categoryId, category). map audit_id (cat_audits category)) config"
    unfolding d by (simp add: case_prod_unfold comp_def)
  finally show "map (\<lambda>c. map a_id (c_audits c)) (categories out) =
        map (\<lambda>(categoryId, category). map audit_id (cat_audits category)) config" .
next
  assume m: "map_of rs = map_of rs'"
  have sa: "score_audit s2n rs = score_audit s2n rs'"
    by (rule ext) (simp add: score_audit_def m)
  have "score_category s2n config rs = score_category s2n config rs'"
  proof
    fix categoryId
    show "score_category s2n config rs categoryId = score_category s2n config rs' categoryId"
      unfolding score_category_def sa by (rule refl)
  qed
  then show "generateReportJson s2n config rs = generateReportJson s2n config rs'"
    by (simp add: generateReportJson_def)
qed

theorem generateReportJson_order_witness:
  "\<exists>out. generateReportJson sample_s2n sample_config sample_results = Inr out \<and>
     generateReportJson sample_s2n sample_config sample_results_reordered = Inr out \<and>
     map category_def_of (categories out) = map snd sample_config \<and>
     map (\<lambda>c. map a_id (c_audits c)) (categories out) = [[''A'', ''B''], [''C'', ''D'', ''E'']]"
proof -
  obtain out where g: "generateReportJson sample_s2n sample_config sample_results = Inr out"
    by (simp add: eval_defs sample_config_def sample_results_def)
  have m: "map_of sample_results = map_of sample_results_reordered"
    by (rule ext) (simp add: sample_results_def sample_results_reordered_def)
  have k: "distinct (map fst sample_config)"
    by (simp add: sample_config_def)
  from generateReportJson_order[of sample_config sample_s2n sample_results out
      sample_results_reordered] g m k
  show ?thesis by (simp add: sample_config_def)
qed

text \<open>
  Claim C4, as the code has it. The overall score is \<open>arithmeticMean\<close> of the categories'
  scores and weights, not rounded, and is never NaN. The score of every category is
  \<open>Math.round\<close> of \<open>arithmeticMean\<close> of its audits' scores and weights: an integer or an
  infinity. When every audit of a category has an integer score from \<open>0\<close> to \<open>100\<close> and an
  integer weight that is not negative, the weights totalling at most \<open>2^45\<close>, the category's
  score is the exact weighted mean rounded to the nearest integer, a half going up, and
  is an integer from \<open>0\<close> to \<open>100\<close>; when the same holds of the categories, the overall score
  is the double nearest to their exact weighted mean.
\<close>

theorem generateReportJson_scores:
  assumes "generateReportJson s2n config rs = Inr out"
  shows "overall_score out = arithmeticMean s2n (map category_item (categories out)) \<and>
    overall_score out \<noteq> NaN \<and>
    (all_in_range s2n (map category_item (categories out)) \<longrightarrow>
       overall_score out =
         round_double (weighted_mean (map (item_pair s2n) (map category_item (categories out))))) \<and>
    (\<forall>c \<in> set (categories out).
       c_score c = Math_round (arithmeticMean s2n (map audit_item (c_audits c))) \<and>
       (c_score c = PosInf \<or> c_score c = NegInf \<or> (\<exists>k. c_score c = Fin (of_int k))) \<and>
       (all_in_range s2n (map audit_item (c_audits c)) \<longrightarrow>
          (\<exists>k. c_score c = Fin (of_int k) \<and> 0 \<le> k \<and> k \<le> 100 \<and>
               k = \<lfloor>weighted_mean (map (item_pair s2n) (map audit_item (c_audits c))) + 1 / 2\<rfloor>)))"
proof (intro conjI impI ballI)
  note g = generateReportJson_Inr[OF assms]
  show o: "overall_score out = arithmeticMean s2n (map category_item (categories out))"
    using g by simp
  then show "overall_score out \<noteq> NaN"
    by (simp add: arithmeticMean_not_NaN)
  {
    assume "all_in_range s2n (map category_item (categories out))"
    from arithmeticMean_in_range(1)[OF this] o
    show "overall_score out =
         round_double (weighted_mean (map (item_pair s2n) (map category_item (categories out))))"
      by simp
  }
  fix c assume c: "c \<in> set (categories out)"
  show r: "c_score c = Math_round (arithmeticMean s2n (map audit_item (c_audits c)))"
    using g c by (auto intro: score_categories_score)
  show "c_score c = PosInf \<or> c_score c = NegInf \<or> (\<exists>k. c_score c = Fin (of_int k))"
    unfolding r by (rule Math_round_cases) (rule arithmeticMean_not_NaN)
  assume ir: "all_in_range s2n (map audit_item (c_audits c))"
  let ?m = "weighted_mean (map (item_pair s2n) (map audit_item (c_audits c)))"
  note m = arithmeticMean_in_range(2-4)[OF ir]
  from m show "\<exists>k. c_score c = Fin (of_int k) \<and> 0 \<le> k \<and> k \<le> 100 \<and> k = \<lfloor>?m + 1 / 2\<rfloor>"
    unfolding r by simp
qed

theorem generateReportJson_scores_witness:
  "\<exists>out. generateReportJson sample_s2n sample_config sample_results = Inr out \<and>
     map c_score (categories out) = [Fin 80, Fin 51] \<and>
     list_all (\<lambda>c. \<exists>k. c_score c = Fin (of_int k) \<and> 0 \<le> k \<and> k \<le> 100) (categories out) \<and>
     overall_score out = round_double (weighted_mean [(80, 1), (51, 1)]) \<and>
     overall_score out = Fin (131 / 2)"
proof -
  obtain out where g: "generateReportJson sample_s2n sample_config sample_results = Inr out"
    by (simp add: eval_defs sample_config_def sample_results_def)
  have v: "map c_score (categories out) = [Fin 80, Fin 51]"
    "map category_item (categories out) =
       [\<lparr>score = JNum (Fin 80), weight = JNum (Fin 1)\<rparr>, \<lparr>score = JNum (Fin 51), weight = JNum (Fin 1)\<rparr>]"
    "map (\<lambda>c. map audit_item (c_audits c)) (categories out) =
       [[\<lparr>score = JNum (Fin 50), weight = JNum (Fin 1)\<rparr>, \<lparr>score = JNum (Fin 90), weight = JNum (Fin 3)\<rparr>],
        [\<lparr>score = JNum (Fin 100), weight = JNum (Fin 1)\<rparr>, \<lparr>score = JNum (Fin 2), weight = JNum (Fin 1)\<rparr>,
         \<lparr>score = JNum (Fin 7), weight = JUndefined\<rparr>]]"
    using g by (auto simp: eval_defs sample_config_def sample_results_def)
  have ir: "all_in_range sample_s2n (map category_item (categories out))"
    unfolding v by (simp add: all_in_range_def in_range_def integral_def number_or_zero_def or_zero_def)
  have "\<forall>its \<in> set (map (\<lambda>c. map audit_item (c_audits c)) (categories out)).
      all_in_range sample_s2n its"
    unfolding v by (simp add: all_in_range_def in_range_def integral_def number_or_zero_def or_zero_def)
  then have ia: "\<forall>c \<in> set (categories out). all_in_range sample_s2n (map audit_item (c_audits c))"
    by simp
  note t = generateReportJson_scores[OF g]
  from t ir
  have "overall_score out =
      round_double (weighted_mean (map (item_pair sample_s2n) (map category_item (categories out))))"
    by blast
  then have o: "overall_score out = round_double (weighted_mean [(80, 1), (51, 1)])"
    unfolding v by (simp add: item_pair_def number_or_zero_def or_zero_def)
  from t ia
  have "\<forall>c \<in> set (categories out). \<exists>k. c_score c = Fin (of_int k) \<and> 0 \<le> k \<and> k \<le> 100"
    by blast
  then have k: "list_all (\<lambda>c. \<exists>k. c_score c = Fin (of_int k) \<and> 0 \<le> k \<and> k \<le> 100) (categories out)"
    by (simp add: list_all_iff)
  have "round_double (131 / 2) = Fin (131 / 2)"
    by (rule round_double_dyadic[of _ 1]) simp_all
  then have h: "round_double (weighted_mean [(80, 1), (51, 1)]) = Fin (131 / 2)"
    by (simp add: weighted_mean_def)
  show ?thesis
    by (rule exI[of _ out]) (simp add: g v(1) o h k)
qed

text \<open>
  The claim as stated fails without those conditions. Nothing clamps a score: a result of
  score \<open>500\<close> in a category of one audit gives the category the score \<open>500\<close>. And the mean
  is computed in double arithmetic: for two audits of scores \<open>1\<close> and \<open>100\<close>, both of the
  weight \<open>0.1\<close> (the double nearest to it), the exact weighted mean is \<open>50.5\<close>, which rounds
  half up to \<open>51\<close>, but the code computes \<open>50.49999999999999\<close> and gives the score \<open>50\<close>.
\<close>

theorem generateReportJson_score_counterexample:
  "(\<exists>out. generateReportJson sample_s2n overscored_config overscored_results = Inr out \<and>
      map c_score (categories out) = [Fin 500]) \<and>
   (\<exists>out. generateReportJson sample_s2n tenths_config tenths_results = Inr out \<and>
      map c_score (categories out) = [Fin 50]) \<and>
   \<lfloor>weighted_mean [(1, double_tenth), (100, double_tenth)] + 1 / 2\<rfloor> = 51"
proof (intro conjI)
  show "\<exists>out. generateReportJson sample_s2n overscored_config overscored_results = Inr out \<and>
      map c_score (categories out) = [Fin 500]"
    by (simp add: eval_defs overscored_config_def overscored_results_def)
  show "\<exists>out. generateReportJson sample_s2n tenths_config tenths_results = Inr out \<and>
      map c_score (categories out) = [Fin 50]"
    by (simp add: eval_defs tenths_config_def tenths_results_def double_tenth_def double_evals)
  show "\<lfloor>weighted_mean [(1, double_tenth), (100, double_tenth)] + 1 / 2\<rfloor> = 51"
    by (simp add: weighted_mean_def double_tenth_def)
qed

section \<open>Properties of replaceStrings\<close>

lemma js_includes_sublist: "js_includes s pat = sublist pat s"
  by (induction s) (auto simp: sublist_Cons_right)

lemma split_from_not_Nil: "split_from sep cur s \<noteq> []"
  by (induction sep cur s rule: split_from.induct) auto

lemma join_Cons: "ps \<noteq> [] \<Longrightarrow> join sep (p # ps) = p @ sep @ join sep ps"
  by (cases ps) simp_all

lemma join_split_from: "sep \<noteq> [] \<Longrightarrow> join sep (split_from sep cur s) = cur @ s"
proof (induction sep cur s rule: split_from.induct)
  case (1 sep cur)
  then show ?case by simp
next
  case (2 sep cur c cs)
  show ?case
  proof (cases "prefix sep (c # cs)")
    case True
    then have "sep @ drop (length sep) (c # cs) = c # cs"
      by (auto simp: prefix_def)
    with True 2 show ?thesis
      by (simp add: join_Cons split_from_not_Nil del: drop.simps)
  next
    case False
    with 2 show ?thesis by simp
  qed
qed

lemma join_singletons: "join [] (map (\<lambda>c. [c]) s) = s"
  by (induction s rule: induct_list012) simp_all

lemma join_split: "join sep (split sep s) = s"
  by (simp add: split_def join_singletons join_split_from)

lemma split_from_parts:
  "sep \<noteq> [] \<Longrightarrow> (\<forall>ps ss. cur @ s = ps @ sep @ ss \<longrightarrow> length cur \<le> length ps) \<Longrightarrow>
   part \<in> set (split_from sep cur s) \<Longrightarrow> \<not> sublist sep part"
proof (induction sep cur s rule: split_from.induct)
  case (1 sep cur)
  then show ?case by (fastforce simp: sublist_def)
next
  case (2 sep cur c cs)
  show ?case
  proof (cases "prefix sep (c # cs)")
    case True
    with "2.prems"(3) \<open>sep \<noteq> []\<close>
    consider "part = cur" | "part \<in> set (split_from sep [] (drop (length sep) (c # cs)))"
      by auto
    then show ?thesis
    proof cases
      case 1
      show ?thesis
      proof
        assume "sublist sep part"
        then obtain ps ss where "cur = ps @ sep @ ss" using 1 by (auto simp: sublist_def)
        then have "cur @ c # cs = ps @ sep @ (ss @ c # cs)" "length ps < length cur"
          using \<open>sep \<noteq> []\<close> by auto
        with "2.prems"(2) show False by (metis not_less)
      qed
    next
      case 2
      with "2.IH"(1) True \<open>sep \<noteq> []\<close> show ?thesis by simp
    qed
  next
    case False
    have "\<forall>ps ss. (cur @ [c]) @ cs = ps @ sep @ ss \<longrightarrow> length (cur @ [c]) \<le> length ps"
    proof (intro allI impI)
      fix ps ss assume e: "(cur @ [c]) @ cs = ps @ sep @ ss"
      then have l: "length cur \<le> length ps" using "2.prems"(2) by simp
      have "length ps \<noteq> length cur"
      proof
        assume "length ps = length cur"
        with e have "c # cs = sep @ ss" by (simp add: append_eq_append_conv)
        with False show False by (simp add: prefix_def)
      qed
      with l show "length (cur @ [c]) \<le> length ps" by simp
    qed
    with "2.IH"(2) False "2.prems"(1,3) show ?thesis by simp
  qed
qed

lemma split_parts_free:
  "sep \<noteq> [] \<Longrightarrow> part \<in> set (split sep s) \<Longrightarrow> \<not> sublist sep part"
  using split_from_parts[of sep "[]" s part] by (simp add: split_def)

lemma in_join_sublist: "p \<in> set ps \<Longrightarrow> sublist p (join sep ps)"
proof (induction sep ps rule: join.induct)
  case (1 sep)
  then show ?case by simp
next
  case (2 sep p')
  then show ?case by simp
next
  case (3 sep p' q ps)
  show ?case
  proof (cases "p = p'")
    case True
    then show ?thesis by simp
  next
    case False
    with 3 have "sublist p (join sep (q # ps))" by simp
    then obtain a b where "join sep (q # ps) = a @ p @ b" by (auto simp: sublist_def)
    then have "join sep (p' # q # ps) = (p' @ sep @ a) @ p @ b" by simp
    then show ?thesis unfolding sublist_def by blast
  qed
qed

lemma split_parts_sublist: "part \<in> set (split sep s) \<Longrightarrow> sublist part s"
  using in_join_sublist[of part "split sep s" sep] by (simp add: join_split)

lemma split_no_occurrence: "\<not> sublist sep s \<Longrightarrow> split sep s = [s]"
proof -
  assume n: "\<not> sublist sep s"
  then have ne: "sep \<noteq> []" by auto
  have "\<not> sublist sep (cur @ s) \<Longrightarrow> split_from sep cur s = [cur @ s]" for cur
  proof (induction sep cur s rule: split_from.induct)
    case (1 sep cur)
    then show ?case by simp
  next
    case (2 sep cur c cs)
    have "\<not> prefix sep (c # cs)"
    proof
      assume "prefix sep (c # cs)"
      then obtain zs where "c # cs = sep @ zs" by (auto simp: prefix_def)
      then have "cur @ c # cs = cur @ sep @ zs" by simp
      then have "sublist sep (cur @ c # cs)" unfolding sublist_def by blast
      with 2(3) show False by simp
    qed
    with 2 show ?case by simp
  qed
  from this[of "[]"] n ne show ?thesis by (simp add: split_def)
qed

lemma replaceStrings_no_occurrence:
  "\<forall>r \<in> set reps. \<not> sublist (search r) s \<Longrightarrow> replaceStrings s reps = s"
  by (induction reps) (simp_all add: split_no_occurrence)

lemma sublist_trans': "sublist a b \<Longrightarrow> sublist b c \<Longrightarrow> sublist a c"
  by (meson sublist_order.order.trans)

lemma replaceStrings_first_only:
  assumes "\<forall>r \<in> set nextReplacements. \<not> sublist (search r) source"
  shows "replaceStrings source (firstReplacement # nextReplacements) =
     join (replacement firstReplacement) (split (search firstReplacement) source)"
proof -
  have "replaceStrings part nextReplacements = part"
    if "part \<in> set (split (search firstReplacement) source)" for part
  proof (rule replaceStrings_no_occurrence, rule ballI)
    fix r assume "r \<in> set nextReplacements"
    with assms have "\<not> sublist (search r) source" by simp
    with split_parts_sublist[OF that] show "\<not> sublist (search r) part"
      using sublist_trans' by blast
  qed
  then have "map (\<lambda>part. replaceStrings part nextReplacements)
      (split (search firstReplacement) source) = split (search firstReplacement) source"
    by (simp add: map_idI)
  then show ?thesis by simp
qed

lemma concat_map_join:
  "concat (map f (join sep xss)) = join (concat (map f sep)) (map (\<lambda>xs. concat (map f xs)) xss)"
  by (induction sep xss rule: join.induct) simp_all

lemma segments_output:
  "concat (map segment_output (segments source reps)) = replaceStrings source reps"
  by (induction reps arbitrary: source) (simp_all add: concat_map_join comp_def)

lemma segments_source:
  "concat (map segment_source (segments source reps)) = source"
proof (induction reps arbitrary: source)
  case Nil
  then show ?case by simp
next
  case (Cons r reps)
  have "concat (map segment_source (segments source (r # reps))) =
      join (search r) (map (\<lambda>part. part) (split (search r) source))"
    by (simp add: concat_map_join comp_def Cons)
  then show ?case by (simp add: join_split)
qed

lemma set_join: "set (join sep xss) \<subseteq> set sep \<union> (\<Union>xs \<in> set xss. set xs)"
  by (induction sep xss rule: join.induct) auto

lemma segments_Replaced:
  "Replaced r \<in> set (segments source reps) \<Longrightarrow> r \<in> set reps"
proof (induction reps arbitrary: source)
  case Nil
  then show ?case by simp
next
  case (Cons r0 reps)
  from Cons.prems set_join[of "[Replaced r0]" "map (\<lambda>part. segments part reps) (split (search r0) source)"]
  have "r = r0 \<or> (\<exists>part. Replaced r \<in> set (segments part reps))" by auto
  with Cons.IH show ?case by auto
qed

lemma segments_Kept_sublist:
  assumes "Kept t \<in> set (segments source reps)"
  shows "sublist t source"
proof -
  from assms obtain a b where "segments source reps = a @ Kept t # b"
    by (auto simp: in_set_conv_decomp)
  then have "concat (map segment_source (segments source reps)) =
      concat (map segment_source a) @ t @ concat (map segment_source b)" by simp
  then show ?thesis unfolding segments_source sublist_def by blast
qed

lemma segments_Kept:
  "Kept t \<in> set (segments source reps) \<Longrightarrow> r \<in> set reps \<Longrightarrow> search r \<noteq> [] \<Longrightarrow>
   \<not> sublist (search r) t"
proof (induction reps arbitrary: source)
  case Nil
  then show ?case by simp
next
  case (Cons r0 reps)
  from Cons.prems(1) set_join[of "[Replaced r0]" "map (\<lambda>part. segments part reps) (split (search r0) source)"]
  obtain part where p: "part \<in> set (split (search r0) source)" "Kept t \<in> set (segments part reps)"
    by auto
  show ?case
  proof (cases "r \<in> set reps")
    case True
    with Cons.IH[OF p(2)] Cons.prems(3) show ?thesis by simp
  next
    case False
    with Cons.prems(2) have r: "r = r0" by simp
    from split_parts_free[OF _ p(1)] Cons.prems(3) r
    have "\<not> sublist (search r) part" by simp
    with segments_Kept_sublist[OF p(2)] show ?thesis
      using sublist_trans' by blast
  qed
qed

lemma split_from_cut:
  "sep \<noteq> [] \<Longrightarrow> \<not> sublist sep (p @ butlast sep) \<Longrightarrow>
   split_from sep cur (p @ sep @ rest) = (cur @ p) # split_from sep [] rest"
proof (induction p arbitrary: cur)
  case Nil
  then obtain c cs where s: "sep = c # cs" by (cases sep) auto
  have "prefix sep (sep @ rest)" by simp
  then have "prefix sep (c # cs @ rest)" using s by simp
  then show ?case using s Nil.prems(1) by (simp del: Cons_prefix_Cons)
next
  case (Cons x xs)
  have np: "\<not> prefix sep (x # xs @ sep @ rest)"
  proof
    assume a: "prefix sep (x # xs @ sep @ rest)"
    have "prefix ((x # xs) @ butlast sep) (x # xs @ sep @ rest)"
      using Cons.prems(1) by (metis append.assoc append_Cons append_butlast_last_id prefixI)
    moreover have "length sep \<le> length ((x # xs) @ butlast sep)" by simp
    ultimately have "prefix sep ((x # xs) @ butlast sep)"
      using a prefix_length_prefix by blast
    with Cons.prems(2) show False by auto
  qed
  have "\<not> sublist sep (xs @ butlast sep)"
    using Cons.prems(2) by (auto simp: sublist_Cons_right)
  from Cons.IH[OF Cons.prems(1) this, of "cur @ [x]"] np
  show ?case by simp
qed

lemma split_unique:
  "sep \<noteq> [] \<Longrightarrow> parts \<noteq> [] \<Longrightarrow> join sep parts = s \<Longrightarrow>
   \<forall>p \<in> set (butlast parts). \<not> sublist sep (p @ butlast sep) \<Longrightarrow>
   \<not> sublist sep (last parts) \<Longrightarrow> split sep s = parts"
proof (induction sep parts arbitrary: s rule: join.induct)
  case (1 sep)
  then show ?case by simp
next
  case (2 sep p)
  then show ?case by (simp add: split_no_occurrence)
next
  case (3 sep p q ps)
  from "3.prems" have "split sep (join sep (q # ps)) = q # ps"
    by (intro "3.IH") auto
  then have r: "split_from sep [] (join sep (q # ps)) = q # ps"
    using "3.prems"(1) by (simp add: split_def)
  have "\<not> sublist sep (p @ butlast sep)" using "3.prems"(4) by simp
  from split_from_cut[OF "3.prems"(1) this, of "[]" "join sep (q # ps)"] r "3.prems"(1,3)
  show ?case by (auto simp: split_def)
qed

lemma split_empty: "split [] s = map (\<lambda>c. [c]) s"
  by (simp add: split_def)

lemma split_from_leftmost:
  "sep \<noteq> [] \<Longrightarrow> (\<forall>ps ss. cur @ s = ps @ sep @ ss \<longrightarrow> length cur \<le> length ps) \<Longrightarrow>
   p \<in> set (butlast (split_from sep cur s)) \<Longrightarrow> \<not> sublist sep (p @ butlast sep)"
proof (induction sep cur s rule: split_from.induct)
  case (1 sep cur)
  then show ?case by simp
next
  case (2 sep cur c cs)
  show ?case
  proof (cases "prefix sep (c # cs)")
    case True
    then obtain zs where zs: "c # cs = sep @ zs" by (auto simp: prefix_def)
    from True "2.prems"(1,3)
    consider "p = cur" | "p \<in> set (butlast (split_from sep [] (drop (length sep) (c # cs))))"
      by (auto simp: split_from_not_Nil)
    then show ?thesis
    proof cases
      case 1
      show ?thesis
      proof
        assume "sublist sep (p @ butlast sep)"
        then obtain ps ss where e: "cur @ butlast sep = ps @ sep @ ss"
          using 1 by (auto simp: sublist_def)
        then have "length cur + length (butlast sep) = length ps + length sep + length ss"
          by (metis length_append add.assoc)
        moreover have "length (butlast sep) < length sep" using "2.prems"(1) by simp
        ultimately have l: "length ps < length cur" by linarith
        have "cur @ c # cs = (cur @ butlast sep) @ [last sep] @ zs"
          using zs "2.prems"(1) by simp
        then have "cur @ c # cs = ps @ sep @ (ss @ [last sep] @ zs)"
          unfolding e by simp
        with "2.prems"(2) have "length cur \<le> length ps" by blast
        with l show False by simp
      qed
    next
      case 2
      with "2.IH"(1) True "2.prems"(1) show ?thesis by simp
    qed
  next
    case False
    have "\<forall>ps ss. (cur @ [c]) @ cs = ps @ sep @ ss \<longrightarrow> length (cur @ [c]) \<le> length ps"
    proof (intro allI impI)
      fix ps ss assume e: "(cur @ [c]) @ cs = ps @ sep @ ss"
      then have l: "length cur \<le> length ps" using "2.prems"(2) by simp
      have "length ps \<noteq> length cur"
      proof
        assume "length ps = length cur"
        with e have "c # cs = sep @ ss" by (simp add: append_eq_append_conv)
        with False show False by (simp add: prefix_def)
      qed
      with l show "length (cur @ [c]) \<le> length ps" by simp
    qed
    with "2.IH"(2) False "2.prems"(1,3) show ?thesis by simp
  qed
qed

lemma split_leftmost:
  assumes "sep \<noteq> []"
  shows "split sep s \<noteq> []"
    and "join sep (split sep s) = s"
    and "\<forall>p \<in> set (butlast (split sep s)). \<not> sublist sep (p @ butlast sep)"
    and "\<not> sublist sep (last (split sep s))"
proof -
  show "split sep s \<noteq> []" using assms by (simp add: split_def split_from_not_Nil)
  show "join sep (split sep s) = s" by (rule join_split)
  show "\<forall>p \<in> set (butlast (split sep s)). \<not> sublist sep (p @ butlast sep)"
    using split_from_leftmost[of sep "[]" s] assms by (simp add: split_def)
  show "\<not> sublist sep (last (split sep s))"
    using split_parts_free[OF assms, of "last (split sep s)" s] assms
    by (simp add: split_def split_from_not_Nil)
qed

text \<open>
  Claim C10, as the code has it. With no pair the source is returned unchanged. Otherwise
  the source is a sequence of segments, each kept or an occurrence of a search string, and
  the output is the same sequence with every such occurrence replaced by its replacement
  string as it is: inserted text is never cut again. The kept text holds no occurrence of
  a search string that is not empty. When none of the later search strings occurs in the
  source, only the first pair is applied, also where its replacement holds one of them.
  The cuts for the first pair are the leftmost occurrences of its search string, one after
  the other: there is one way to write the source as parts joined by the search string
  such that the search string does not occur in a part followed by all but the last unit
  of the search string, nor in the last part; the output is the replacement string
  joining the results of \<open>replaceStrings\<close> on those parts with the remaining pairs. So an
  occurrence of a later search string that overlaps a cut is not replaced. A first search
  string that is empty cuts the source into its units.
\<close>

theorem replaceStrings_segments:
  "replaceStrings source [] = source \<and>
   concat (map segment_source (segments source replacements)) = source \<and>
   concat (map segment_output (segments source replacements)) =
     replaceStrings source replacements \<and>
   (\<forall>seg \<in> set (segments source replacements).
      case seg of
        Replaced r \<Rightarrow> r \<in> set replacements
      | Kept t \<Rightarrow> \<forall>r \<in> set replacements. search r \<noteq> [] \<longrightarrow> \<not> js_includes t (search r)) \<and>
   ((\<forall>r \<in> set nextReplacements. \<not> js_includes source (search r)) \<longrightarrow>
      replaceStrings source (firstReplacement # nextReplacements) =
        join (replacement firstReplacement) (split (search firstReplacement) source)) \<and>
   (search firstReplacement \<noteq> [] \<longrightarrow>
      (\<exists>parts. parts \<noteq> [] \<and> join (search firstReplacement) parts = source \<and>
         (\<forall>p \<in> set (butlast parts).
            \<not> js_includes (p @ butlast (search firstReplacement)) (search firstReplacement)) \<and>
         \<not> js_includes (last parts) (search firstReplacement))) \<and>
   (search firstReplacement \<noteq> [] \<longrightarrow> parts \<noteq> [] \<longrightarrow>
      join (search firstReplacement) parts = source \<longrightarrow>
      (\<forall>p \<in> set (butlast parts).
         \<not> js_includes (p @ butlast (search firstReplacement)) (search firstReplacement)) \<longrightarrow>
      \<not> js_includes (last parts) (search firstReplacement) \<longrightarrow>
      replaceStrings source (firstReplacement # nextReplacements) =
        join (replacement firstReplacement)
          (map (\<lambda>part. replaceStrings part nextReplacements) parts)) \<and>
   (search firstReplacement = [] \<longrightarrow>
      replaceStrings source (firstReplacement # nextReplacements) =
        join (replacement firstReplacement)
          (map (\<lambda>c. replaceStrings [c] nextReplacements) source))"
proof (intro conjI)
  show "replaceStrings source [] = source" by simp
  show "concat (map segment_source (segments source replacements)) = source"
    by (rule segments_source)
  show "concat (map segment_output (segments source replacements)) =
     replaceStrings source replacements"
    by (rule segments_output)
  show "\<forall>seg \<in> set (segments source replacements).
      case seg of
        Replaced r \<Rightarrow> r \<in> set replacements
      | Kept t \<Rightarrow> \<forall>r \<in> set replacements. search r \<noteq> [] \<longrightarrow> \<not> js_includes t (search r)"
  proof
    fix seg assume s: "seg \<in> set (segments source replacements)"
    show "case seg of
        Replaced r \<Rightarrow> r \<in> set replacements
      | Kept t \<Rightarrow> \<forall>r \<in> set replacements. search r \<noteq> [] \<longrightarrow> \<not> js_includes t (search r)"
    proof (cases seg)
      case (Kept t)
      with s show ?thesis
        by (auto simp: js_includes_sublist dest: segments_Kept)
    next
      case (Replaced r)
      with s show ?thesis by (auto dest: segments_Replaced)
    qed
  qed
  show "(\<forall>r \<in> set nextReplacements. \<not> js_includes source (search r)) \<longrightarrow>
      replaceStrings source (firstReplacement # nextReplacements) =
        join (replacement firstReplacement) (split (search firstReplacement) source)"
    using replaceStrings_first_only[of nextReplacements source firstReplacement]
    by (simp add: js_includes_sublist)
  show "search firstReplacement \<noteq> [] \<longrightarrow>
      (\<exists>parts. parts \<noteq> [] \<and> join (search firstReplacement) parts = source \<and>
         (\<forall>p \<in> set (butlast parts).
            \<not> js_includes (p @ butlast (search firstReplacement)) (search firstReplacement)) \<and>
         \<not> js_includes (last parts) (search firstReplacement))"
  proof
    assume n: "search firstReplacement \<noteq> []"
    show "\<exists>parts. parts \<noteq> [] \<and> join (search firstReplacement) parts = source \<and>
         (\<forall>p \<in> set (butlast parts).
            \<not> js_includes (p @ butlast (search firstReplacement)) (search firstReplacement)) \<and>
         \<not> js_includes (last parts) (search firstReplacement)"
      using split_leftmost[OF n, of source]
      by (intro exI[of _ "split (search firstReplacement) source"]) (simp add: js_includes_sublist)
  qed
  show "search firstReplacement \<noteq> [] \<longrightarrow> parts \<noteq> [] \<longrightarrow>
      join (search firstReplacement) parts = source \<longrightarrow>
      (\<forall>p \<in> set (butlast parts).
         \<not> js_includes (p @ butlast (search firstReplacement)) (search firstReplacement)) \<longrightarrow>
      \<not> js_includes (last parts) (search firstReplacement) \<longrightarrow>
      replaceStrings source (firstReplacement # nextReplacements) =
        join (replacement firstReplacement)
          (map (\<lambda>part. replaceStrings part nextReplacements) parts)"
    using split_unique[of "search firstReplacement" parts source]
    by (simp add: js_includes_sublist)
  show "search firstReplacement = [] \<longrightarrow>
      replaceStrings source (firstReplacement # nextReplacements) =
        join (replacement firstReplacement)
          (map (\<lambda>c. replaceStrings [c] nextReplacements) source)"
    by (simp add: split_empty comp_def)
qed

theorem replaceStrings_segments_witness:
  "replaceStrings ''a%J%b''
     [\<lparr>search = ''%J%'', replacement = ''%C%''\<rparr>, \<lparr>search = ''%C%'', replacement = ''x''\<rparr>] =
     ''a%C%b'' \<and>
   segments ''a%J%b''
     [\<lparr>search = ''%J%'', replacement = ''%C%''\<rparr>, \<lparr>search = ''%C%'', replacement = ''x''\<rparr>] =
     [Kept ''a'', Replaced \<lparr>search = ''%J%'', replacement = ''%C%''\<rparr>, Kept ''b''] \<and>
   \<not> js_includes ''a'' ''%J%'' \<and> \<not> js_includes ''b'' ''%C%'' \<and>
   replaceStrings ''aaa'' [\<lparr>search = ''aa'', replacement = ''X''\<rparr>] = ''Xa'' \<and>
   replaceStrings ''aab''
     [\<lparr>search = ''ab'', replacement = ''X''\<rparr>, \<lparr>search = ''aa'', replacement = ''Y''\<rparr>] = ''aX'' \<and>
   replaceStrings ''ab'' [\<lparr>search = [], replacement = ''-''\<rparr>] = ''a-b''"
proof -
  let ?r1 = "\<lparr>search = ''%J%'', replacement = ''%C%''\<rparr>"
  let ?r2 = "\<lparr>search = ''%C%'', replacement = ''x''\<rparr>"
  let ?aa = "\<lparr>search = ''aa'', replacement = ''Y''\<rparr>"
  have n: "\<forall>r \<in> set [?r2]. \<not> js_includes ''a%J%b'' (search r)" by simp
  have s: "split ''%J%'' ''a%J%b'' = [''a'', ''b'']" by (simp add: split_def)
  have g: "segments ''a%J%b'' [?r1, ?r2] = [Kept ''a'', Replaced ?r1, Kept ''b'']"
    by (simp add: s) (simp add: split_def)
  have a: "replaceStrings ''a%J%b'' [?r1, ?r2] = ''a%C%b''"
    using replaceStrings_segments[of "''a%J%b''" "[?r1, ?r2]" "[?r2]" ?r1 "[''a'', ''b'']"] n s g
    by simp
  have b: "replaceStrings ''aaa'' [\<lparr>search = ''aa'', replacement = ''X''\<rparr>] = ''Xa''"
    using replaceStrings_segments[of "''aaa''" "[]" "[]" "\<lparr>search = ''aa'', replacement = ''X''\<rparr>"
        "[[], ''a'']"]
    by simp
  have c1: "replaceStrings ''a'' [?aa] = ''a''"
    using replaceStrings_segments[of "''a''" "[]" "[]" ?aa "[''a'']"] by simp
  have c2: "replaceStrings [] [?aa] = []"
    using replaceStrings_segments[of "[]" "[]" "[]" ?aa "[[]]"] by simp
  have c: "replaceStrings ''aab'' [\<lparr>search = ''ab'', replacement = ''X''\<rparr>, ?aa] = ''aX''"
    using replaceStrings_segments[of "''aab''" "[]" "[?aa]"
        "\<lparr>search = ''ab'', replacement = ''X''\<rparr>" "[''a'', []]"] c1 c2
    by simp
  have d: "replaceStrings ''ab'' [\<lparr>search = [], replacement = ''-''\<rparr>] = ''a-b''"
    using replaceStrings_segments[of "''ab''" "[]" "[]" "\<lparr>search = [], replacement = ''-''\<rparr>" "[]"]
    by simp
  from a b c d g show ?thesis by simp
qed

text \<open>
  The claim as stated fails where occurrences overlap: in \<open>aab\<close> the search string \<open>aa\<close> of
  the second pair occurs, but the cut at \<open>ab\<close> for the first pair leaves the parts \<open>a\<close> and
  the empty string, and the output \<open>aX\<close> holds no \<open>Y\<close>.
\<close>

theorem replaceStrings_overlap_counterexample:
  "js_includes ''aab'' ''aa'' \<and>
   replaceStrings ''aab''
     [\<lparr>search = ''ab'', replacement = ''X''\<rparr>, \<lparr>search = ''aa'', replacement = ''Y''\<rparr>] = ''aX'' \<and>
   \<not> js_includes ''aX'' ''Y''"
  by (simp add: split_def)

section \<open>Properties of the renderer\<close>

lemma foldl_appendChild:
  "foldl (\<lambda>element el. appendChild el element) (Element t cs opn ks) els =
     Element t cs opn (ks @ els)"
  by (induction els arbitrary: ks) simp_all

lemma calculateRating_numeric:
  "calculateRating sc ''numeric'' =
     (if js_ge sc (Fin 75) then ''pass'' else if js_ge sc (Fin 45) then ''average'' else ''fail'')"
  by (simp add: calculateRating_def RATINGS_PASS_def RATINGS_AVERAGE_def RATINGS_FAIL_def)

lemma calculateRating_other:
  "precision \<noteq> ''numeric'' \<Longrightarrow>
   calculateRating sc precision = (if sc = Fin 100 then ''pass'' else ''fail'')"
  by (simp add: calculateRating_def RATINGS_PASS_def RATINGS_FAIL_def)

lemma sample_host_simps:
  "templates sample_host = sample_templates"
  "toLocaleString sample_host (Fin 92) = ''92''"
  "stack sample_host = sample_stack"
  by (simp_all add: sample_host_def)

lemma sample_category_score:
  "renderScore sample_host (Fin 92) ''Perf'' ''Speed'' (Category c) =
     Inr [Element ''div'' [''lighthouse-score''] False
            [Element ''div''
               [''lighthouse-score__value'', ''lighthouse-score__value--fail'',
                ''lighthouse-score__value--category''] False [Text ''92''],
             Element ''div'' [''lighthouse-score__title''] False [Text ''Perf'']]]"
  by (simp add: calculateRating_other renderScore_def cloneTemplate_def sample_host_simps
      sample_templates_def on_first_def formatNumber_def)

text \<open>
  Claim C9, as the code has it. The title of an audit is the description of its result,
  followed by a colon, two spaces and the display value when the display value is defined
  and not empty, followed by \<open>(target: \<close> the optimal value \<open>)\<close> after a space when the optimal
  value is defined and not empty. \<open>_renderAudit\<close> passes this title to \<open>_renderScore\<close> and
  wraps what it returns.
\<close>

theorem audit_title_composition:
  "audit_title result =
     description result @
     (case displayValue result of
        None \<Rightarrow> [] | Some dv \<Rightarrow> if dv = [] then [] else '':  '' @ dv) @
     (case optimalValue result of
        None \<Rightarrow> [] | Some ov \<Rightarrow> if ov = [] then [] else '' (target: '' @ ov @ '')'') \<and>
   renderAudit h audit =
     (case renderScore h (a_score audit) (audit_title (a_result audit))
             (helpText (a_result audit)) (Audit audit) of
        Inl e \<Rightarrow> Inl e
      | Inr tmpl \<Rightarrow> Inr (Element ''div'' [''lighthouse-audit''] False tmpl))"
  by (simp add: audit_title_def renderAudit_def Let_def createElement_def foldl_appendChild
      split: option.splits sum.splits)

text \<open>
  The claim as stated fails twice: the separator has two spaces, not one, and a display
  value or optimal value that is present but empty adds nothing.
\<close>

theorem audit_title_counterexample:
  "audit_title ((sample_result JNull)\<lparr>displayValue := Some ''1.2s''\<rparr>) = ''First paint:  1.2s'' \<and>
   audit_title ((sample_result JNull)\<lparr>displayValue := Some ''1.2s''\<rparr>) \<noteq>
     description (sample_result JNull) @ '': '' @ ''1.2s'' \<and>
   audit_title ((sample_result JNull)\<lparr>displayValue := Some [], optimalValue := Some []\<rparr>) =
     ''First paint''"
  by (simp add: audit_title_def sample_result_def)

text \<open>
  Claim C1 at a category of score \<open>92\<close>. With the precision \<open>numeric\<close> the rating of \<open>92\<close> is
  \<open>pass\<close>; \<open>_renderScore\<close> passes the precision \<open>category\<close>, which \<open>calculateRating\<close> treats
  as binary, so the value element of the category gets the class of the rating \<open>fail\<close>.
\<close>

theorem renderScore_category_rating:
  "calculateRating (Fin 92) ''numeric'' = ''pass'' \<and>
   calculateRating (Fin 92) ''category'' = ''fail'' \<and>
   renderScore sample_host (c_score sample_category) (c_name sample_category)
     (c_description sample_category) (Category sample_category) =
     Inr [Element ''div'' [''lighthouse-score''] False
            [Element ''div''
               [''lighthouse-score__value'', ''lighthouse-score__value--fail'',
                ''lighthouse-score__value--category''] False [Text ''92''],
             Element ''div'' [''lighthouse-score__title''] False [Text ''Perf'']]]"
proof -
  have "c_score sample_category = Fin 92" "c_name sample_category = ''Perf''"
    "c_description sample_category = ''Speed''"
    by (simp_all add: sample_category_def)
  then show ?thesis
    by (simp add: calculateRating_numeric calculateRating_other sample_category_score)
qed

text \<open>
  Claim C3. \<open>renderReport\<close> returns an element for every host and report; when the render
  throws \<open>e\<close>, the element is the exception element whose text is the stack of \<open>e\<close>. A
  details node whose type is none of \<open>text\<close>, \<open>block\<close> and \<open>list\<close> throws the error
  \<open>Unknown type\<close> with its type.
\<close>

theorem renderReport_never_throws:
  "(\<exists>element. renderReport h report = Inr element) \<and>
   (\<forall>e. renderReport_inner h report = Inl e \<longrightarrow>
      renderReport h report =
        Inr (Element ''div'' [''lighthouse-exception''] False
               (if stack h e = [] then [] else [Text (stack h e)]))) \<and>
   (ty \<noteq> ''text'' \<and> ty \<noteq> ''block'' \<and> ty \<noteq> ''list'' \<longrightarrow>
      renderDetails h (Details ty tx hdr its) = Inl (Error (''Unknown type: '' @ ty)))"
  by (auto simp: renderReport_def renderException_def createElement_def split: sum.splits)

theorem renderReport_never_throws_witness:
  "renderDetails sample_host (Details ''graph'' None None None) = Inl (Error ''Unknown type: graph'') \<and>
   renderReport_inner sample_host graph_report = Inl (Error ''Unknown type: graph'') \<and>
   renderReport sample_host graph_report =
     Inr (Element ''div'' [''lighthouse-exception''] False [Text ''Error: Unknown type: graph''])"
proof -
  let ?a = "\<lparr>a_id = ''A'', a_weight = JNum (Fin 1),
      a_result = (sample_result (JNum (Fin 92)))\<lparr>result_details := Some graph_details\<rparr>,
      a_score = Fin 92\<rparr>"
  have d: "renderDetails sample_host graph_details = Inl (Error ''Unknown type: graph'')"
    by (simp add: graph_details_def renderText_def createElement_def)
  have s: "renderScore sample_host (Fin 92) title descr (Audit ?a) =
      Inl (Error ''Unknown type: graph'')" for title descr
    by (simp add: renderScore_def cloneTemplate_def sample_host_simps sample_templates_def
        on_first_def querySelector_def calculateRating_other formatNumber_def Let_def
        sample_result_def d)
  have a: "renderAudit sample_host ?a = Inl (Error ''Unknown type: graph'')"
    by (simp add: renderAudit_def s)
  have c: "renderCategory sample_host (sample_category\<lparr>c_audits := [?a]\<rparr>) =
      Inl (Error ''Unknown type: graph'')"
    by (simp add: renderCategory_def sample_category_def sample_category_score a)
  have i: "renderReport_inner sample_host graph_report = Inl (Error ''Unknown type: graph'')"
    by (simp add: renderReport_inner_def graph_report_def c)
  from renderReport_never_throws[of sample_host graph_report "''graph''" None None None] i
  show ?thesis by (simp add: sample_host_simps sample_stack_def)
qed

end
